theory Spec2Isabelle
  imports Main
begin

section \<open>JSON values as Python sees them\<close>

text \<open>
  The values \<^verbatim>\<open>json.loads\<close> produces: \<^verbatim>\<open>None\<close>, booleans, integers, strings, lists
  and dicts. A dict is kept as the association list of its items; \<^verbatim>\<open>dict.get\<close> is
  \<open>map_of\<close> on it with \<^verbatim>\<open>None\<close> (\<open>JNull\<close>) for a missing key. JSON numbers are
  integers here; floating point numbers are left out of the model.
\<close>

datatype json =
    JNull
  | JBool bool
  | JInt int
  | JStr string
  | JArr "json list"
  | JObj "(string \<times> json) list"

text \<open>Python truthiness, the test behind every \<^verbatim>\<open>if not x\<close> of the handler.\<close>

fun truthy :: "json \<Rightarrow> bool" where
  "truthy JNull = False"
| "truthy (JBool b) = b"
| "truthy (JInt n) = (n \<noteq> 0)"
| "truthy (JStr s) = (s \<noteq> [])"
| "truthy (JArr xs) = (xs \<noteq> [])"
| "truthy (JObj ps) = (ps \<noteq> [])"

definition dict_get :: "(string \<times> json) list \<Rightarrow> string \<Rightarrow> json" where
  "dict_get ps k = (case map_of ps k of None \<Rightarrow> JNull | Some v \<Rightarrow> v)"

text \<open>
  Keys of the two module-level dicts. A list or a dict is unhashable (\<^verbatim>\<open>TypeError\<close>,
  here \<open>None\<close>); \<^verbatim>\<open>True\<close> and \<^verbatim>\<open>1\<close> are the same key, as are \<^verbatim>\<open>False\<close> and \<^verbatim>\<open>0\<close>.
\<close>

datatype dict_key = KNone | KInt int | KStr string

fun hash_key :: "json \<Rightarrow> dict_key option" where
  "hash_key JNull = Some KNone"
| "hash_key (JBool b) = Some (KInt (if b then 1 else 0))"
| "hash_key (JInt n) = Some (KInt n)"
| "hash_key (JStr s) = Some (KStr s)"
| "hash_key (JArr xs) = None"
| "hash_key (JObj ps) = None"

section \<open>The in-memory store of context7\_server.py\<close>

text \<open>
  \<^verbatim>\<open>contexts = {}\<close> maps a user to the dict of that user's contexts (context id to
  context data); \<^verbatim>\<open>context_stacks = {}\<close> maps a user to the list of context ids, the
  last element being the top of the stack. Every key of an inner dict is a generated
  string, so the inner dict is a map on strings, and a lookup with a hashable key that is
  not a string finds nothing.
\<close>

record store =
  contexts :: "dict_key \<rightharpoonup> (string \<rightharpoonup> json)"
  context_stacks :: "dict_key \<rightharpoonup> string list"

definition empty_store :: store where
  "empty_store = \<lparr>contexts = Map.empty, context_stacks = Map.empty\<rparr>"

datatype py_exception = AttributeError | TypeError | KeyError

text \<open>
  The text of an error envelope: a literal, the f-string of the not-found branch over
  the two parameter values it prints, or \<^verbatim>\<open>str(e)\<close> of a caught exception.
\<close>

datatype message =
    Text string
  | NotFoundText json json
  | ExceptionText py_exception

text \<open>
  The dicts the handler returns:
  \<open>Error m\<close> is \<^verbatim>\<open>{"error": m}\<close>,
  \<open>Failure m\<close> is \<^verbatim>\<open>{"error": m, "success": False}\<close>,
  \<open>Pushed i\<close> is \<^verbatim>\<open>{"context_id": i, "success": True}\<close>,
  \<open>Popped i c\<close> and \<open>Got i c\<close> are \<^verbatim>\<open>{"context_id": i, "context": c, "success": True}\<close>,
  \<open>Listed xs\<close> is \<^verbatim>\<open>{"contexts": [{"context_id": i, "context": c}, ...]}\<close> and
  \<open>Cleared\<close> is \<^verbatim>\<open>{"success": True}\<close>.
\<close>

datatype response =
    Error message
  | Failure message
  | Pushed string
  | Popped string json
  | Listed "(string \<times> json) list"
  | Got string json
  | Cleared

text \<open>\<^verbatim>\<open>f"ctx_{str(uuid.uuid4())[:8]}"\<close>, over the string of the UUID that was drawn.\<close>

definition new_context_id :: "string \<Rightarrow> string" where
  "new_context_id uuid4 = ''ctx_'' @ take 8 uuid4"

text \<open>\<^verbatim>\<open>d.get(k)\<close> and \<^verbatim>\<open>d.pop(k, None)\<close> on an inner dict: \<^verbatim>\<open>None\<close> for a missing key.\<close>

definition inner_get :: "(string \<rightharpoonup> json) \<Rightarrow> string \<Rightarrow> json" where
  "inner_get d k = (case d k of None \<Rightarrow> JNull | Some v \<Rightarrow> v)"

text \<open>
  Each branch of the handler returns the dict it builds, or the exception it raises,
  together with the store as the branch leaves it: a mutation made before an exception
  stays.
\<close>

definition push_context :: "store \<Rightarrow> json \<Rightarrow> string \<Rightarrow> (py_exception + response) \<times> store" where
  "push_context s parameters uuid4 =
    (case parameters of
       JObj ps \<Rightarrow>
         (let user_id = dict_get ps ''user_id'';
              context_data = dict_get ps ''context''
          in if \<not> truthy user_id then (Inr (Error (Text ''user_id parameter is required'')), s)
             else if \<not> truthy context_data then
               (Inr (Error (Text ''context parameter is required'')), s)
             else
               (case hash_key user_id of
                  None \<Rightarrow> (Inl TypeError, s)
                | Some u \<Rightarrow>
                    (let s1 = (if contexts s u = None
                               then s\<lparr>contexts := (contexts s)(u \<mapsto> Map.empty),
                                      context_stacks := (context_stacks s)(u \<mapsto> [])\<rparr>
                               else s);
                         context_id = new_context_id uuid4
                     in case contexts s1 u of
                          None \<Rightarrow> (Inl KeyError, s1)
                        | Some d \<Rightarrow>
                            (let s2 = s1\<lparr>contexts := (contexts s1)(u \<mapsto> d(context_id \<mapsto> context_data))\<rparr>
                             in case context_stacks s2 u of
                                  None \<Rightarrow> (Inl KeyError, s2)
                                | Some st \<Rightarrow>
                                    (Inr (Pushed context_id),
                                     s2\<lparr>context_stacks := (context_stacks s2)(u \<mapsto> st @ [context_id])\<rparr>)))))
     | _ \<Rightarrow> (Inl AttributeError, s))"

definition pop_context :: "store \<Rightarrow> json \<Rightarrow> (py_exception + response) \<times> store" where
  "pop_context s parameters =
    (case parameters of
       JObj ps \<Rightarrow>
         (let user_id = dict_get ps ''user_id''
          in if \<not> truthy user_id then (Inr (Error (Text ''user_id parameter is required'')), s)
             else
               (case hash_key user_id of
                  None \<Rightarrow> (Inl TypeError, s)
                | Some u \<Rightarrow>
                    (case context_stacks s u of
                       None \<Rightarrow> (Inr (Failure (Text ''No contexts to pop'')), s)
                     | Some st \<Rightarrow>
                         if st = [] then (Inr (Failure (Text ''No contexts to pop'')), s)
                         else
                           (let context_id = last st;
                                s1 = s\<lparr>context_stacks := (context_stacks s)(u \<mapsto> butlast st)\<rparr>
                            in case contexts s1 u of
                                 None \<Rightarrow> (Inl KeyError, s1)
                               | Some d \<Rightarrow>
                                   (Inr (Popped context_id (inner_get d context_id)),
                                    s1\<lparr>contexts := (contexts s1)(u \<mapsto> d(context_id := None))\<rparr>)))))
     | _ \<Rightarrow> (Inl AttributeError, s))"

definition list_contexts :: "store \<Rightarrow> json \<Rightarrow> (py_exception + response) \<times> store" where
  "list_contexts s parameters =
    (case parameters of
       JObj ps \<Rightarrow>
         (let user_id = dict_get ps ''user_id''
          in if \<not> truthy user_id then (Inr (Error (Text ''user_id parameter is required'')), s)
             else
               (case hash_key user_id of
                  None \<Rightarrow> (Inl TypeError, s)
                | Some u \<Rightarrow>
                    (case context_stacks s u of
                       None \<Rightarrow> (Inr (Listed []), s)
                     | Some st \<Rightarrow>
                         if st = [] then (Inr (Listed []), s)
                         else
                           (case contexts s u of
                              None \<Rightarrow> (Inl KeyError, s)
                            | Some d \<Rightarrow>
                                (Inr (Listed (map (\<lambda>context_id. (context_id, inner_get d context_id)) st)), s)))))
     | _ \<Rightarrow> (Inl AttributeError, s))"

definition get_context :: "store \<Rightarrow> json \<Rightarrow> (py_exception + response) \<times> store" where
  "get_context s parameters =
    (case parameters of
       JObj ps \<Rightarrow>
         (let user_id = dict_get ps ''user_id'';
              context_id = dict_get ps ''context_id''
          in if \<not> truthy user_id then (Inr (Error (Text ''user_id parameter is required'')), s)
             else if \<not> truthy context_id then
               (Inr (Error (Text ''context_id parameter is required'')), s)
             else
               (case hash_key user_id of
                  None \<Rightarrow> (Inl TypeError, s)
                | Some u \<Rightarrow>
                    (case contexts s u of
                       None \<Rightarrow> (Inr (Failure (NotFoundText context_id user_id)), s)
                     | Some d \<Rightarrow>
                         (case hash_key context_id of
                            None \<Rightarrow> (Inl TypeError, s)
                          | Some (KStr c) \<Rightarrow>
                              (case d c of
                                 None \<Rightarrow> (Inr (Failure (NotFoundText context_id user_id)), s)
                               | Some v \<Rightarrow> (Inr (Got c v), s))
                          | Some _ \<Rightarrow> (Inr (Failure (NotFoundText context_id user_id)), s)))))
     | _ \<Rightarrow> (Inl AttributeError, s))"

definition clear_contexts :: "store \<Rightarrow> json \<Rightarrow> (py_exception + response) \<times> store" where
  "clear_contexts s parameters =
    (case parameters of
       JObj ps \<Rightarrow>
         (let user_id = dict_get ps ''user_id''
          in if \<not> truthy user_id then (Inr (Error (Text ''user_id parameter is required'')), s)
             else
               (case hash_key user_id of
                  None \<Rightarrow> (Inl TypeError, s)
                | Some u \<Rightarrow>
                    (if contexts s u \<noteq> None
                     then (Inr Cleared,
                           s\<lparr>contexts := (contexts s)(u \<mapsto> Map.empty),
                             context_stacks := (context_stacks s)(u \<mapsto> [])\<rparr>)
                     else (Inr Cleared, s))))
     | _ \<Rightarrow> (Inl AttributeError, s))"

text \<open>
  The request as the handler reads it: the path segment, the outcome of decoding the
  body (empty, not JSON, or the decoded value), and the UUID that \<^verbatim>\<open>uuid.uuid4()\<close> draws
  if the push branch reaches it.
\<close>

datatype request_body = EmptyBody | Malformed | Decoded json

record request =
  function_name :: string
  body :: request_body
  uuid4 :: string

definition dispatch :: "store \<Rightarrow> string \<Rightarrow> json \<Rightarrow> string \<Rightarrow> (py_exception + response) \<times> store" where
  "dispatch s fn parameters u4 =
    (if fn = ''push_context'' then push_context s parameters u4
     else if fn = ''pop_context'' then pop_context s parameters
     else if fn = ''list_contexts'' then list_contexts s parameters
     else if fn = ''get_context'' then get_context s parameters
     else if fn = ''clear_contexts'' then clear_contexts s parameters
     else (Inr (Error (Text (''Function '' @ fn @ '' not supported''))), s))"

definition handle_mcp_request :: "store \<Rightarrow> request \<Rightarrow> response \<times> store" where
  "handle_mcp_request s r =
    (case body r of
       Malformed \<Rightarrow> (Error (Text ''Invalid JSON in request body''), s)
     | EmptyBody \<Rightarrow>
         (case dispatch s (function_name r) (JObj []) (uuid4 r) of
            (Inl e, s') \<Rightarrow> (Error (ExceptionText e), s')
          | (Inr res, s') \<Rightarrow> (res, s'))
     | Decoded parameters \<Rightarrow>
         (case dispatch s (function_name r) parameters (uuid4 r) of
            (Inl e, s') \<Rightarrow> (Error (ExceptionText e), s')
          | (Inr res, s') \<Rightarrow> (res, s')))"

section \<open>Views of the store, requests and runs\<close>

text \<open>
  The \<open>order\<close> and \<open>entries\<close> of a user: the user's list in \<^verbatim>\<open>context_stacks\<close> and
  the user's dict in \<^verbatim>\<open>contexts\<close>, an absent user having none.
\<close>

definition user_order :: "store \<Rightarrow> dict_key \<Rightarrow> string list" where
  "user_order s u = (case context_stacks s u of None \<Rightarrow> [] | Some st \<Rightarrow> st)"

definition user_entries :: "store \<Rightarrow> dict_key \<Rightarrow> (string \<rightharpoonup> json)" where
  "user_entries s u = (case contexts s u of None \<Rightarrow> Map.empty | Some d \<Rightarrow> d)"

definition listing :: "store \<Rightarrow> dict_key \<Rightarrow> (string \<times> json) list" where
  "listing s u = map (\<lambda>context_id. (context_id, inner_get (user_entries s u) context_id)) (user_order s u)"

definition is_error :: "response \<Rightarrow> bool" where
  "is_error res = (case res of Error m \<Rightarrow> True | Failure m \<Rightarrow> True | _ \<Rightarrow> False)"

text \<open>Requests of a client that sends exactly the documented parameters.\<close>

definition push_request :: "string \<Rightarrow> json \<Rightarrow> string \<Rightarrow> request" where
  "push_request user c u4 =
    \<lparr>function_name = ''push_context'',
     body = Decoded (JObj [(''user_id'', JStr user), (''context'', c)]),
     uuid4 = u4\<rparr>"

definition user_request :: "string \<Rightarrow> string \<Rightarrow> request" where
  "user_request fn user =
    \<lparr>function_name = fn, body = Decoded (JObj [(''user_id'', JStr user)]), uuid4 = []\<rparr>"

definition get_request :: "string \<Rightarrow> string \<Rightarrow> request" where
  "get_request user c =
    \<lparr>function_name = ''get_context'',
     body = Decoded (JObj [(''user_id'', JStr user), (''context_id'', JStr c)]),
     uuid4 = []\<rparr>"

text \<open>The user a request names, when its body is an object with a hashable \<^verbatim>\<open>user_id\<close>.\<close>

definition request_user :: "request \<Rightarrow> dict_key option" where
  "request_user r =
    (case body r of
       Decoded (JObj ps) \<Rightarrow> hash_key (dict_get ps ''user_id'')
     | _ \<Rightarrow> None)"

text \<open>
  A push draws a fresh identifier when the identifier it generates is not in the
  order of the user it pushes for. Requests other than pushes draw nothing.
\<close>

definition fresh_draw :: "store \<Rightarrow> request \<Rightarrow> bool" where
  "fresh_draw s r =
    (if function_name r = ''push_context''
     then (case request_user r of
             None \<Rightarrow> True
           | Some u \<Rightarrow> new_context_id (uuid4 r) \<notin> set (user_order s u))
     else True)"

inductive reachable :: "store \<Rightarrow> bool" where
  init: "reachable empty_store"
| step: "reachable s \<Longrightarrow> reachable (snd (handle_mcp_request s r))"

inductive reachable_fresh :: "store \<Rightarrow> bool" where
  init_fresh: "reachable_fresh empty_store"
| step_fresh: "reachable_fresh s \<Longrightarrow> fresh_draw s r \<Longrightarrow>
     reachable_fresh (snd (handle_mcp_request s r))"

definition same_users :: "store \<Rightarrow> bool" where
  "same_users s = (\<forall>u. (contexts s u = None) = (context_stacks s u = None))"

definition stacks_match :: "store \<Rightarrow> bool" where
  "stacks_match s =
    (\<forall>u. distinct (user_order s u) \<and> set (user_order s u) = dom (user_entries s u))"

text \<open>A run of requests, one after the other, with the response to each.\<close>

fun run :: "store \<Rightarrow> request list \<Rightarrow> (request \<times> response) list \<times> store" where
  "run s [] = ([], s)"
| "run s (r # rs) =
    (case handle_mcp_request s r of
       (res, s') \<Rightarrow> (case run s' rs of (tr, s'') \<Rightarrow> ((r, res) # tr, s'')))"

text \<open>
  The identifiers a run hands out to user \<open>u\<close>, and the first eight characters of the
  UUIDs drawn for them, both in the order of the run.
\<close>

fun issued :: "dict_key \<Rightarrow> (request \<times> response) list \<Rightarrow> string list" where
  "issued u [] = []"
| "issued u ((r, res) # tr) =
    (case res of
       Pushed i \<Rightarrow> (if request_user r = Some u then i # issued u tr else issued u tr)
     | _ \<Rightarrow> issued u tr)"

fun draws :: "dict_key \<Rightarrow> (request \<times> response) list \<Rightarrow> string list" where
  "draws u [] = []"
| "draws u ((r, res) # tr) =
    (case res of
       Pushed i \<Rightarrow> (if request_user r = Some u then take 8 (uuid4 r) # draws u tr else draws u tr)
     | _ \<Rightarrow> draws u tr)"

text \<open>Pushing a sequence of contexts for one user, each with the UUID drawn for it.\<close>

fun push_all :: "store \<Rightarrow> string \<Rightarrow> (json \<times> string) list \<Rightarrow> store" where
  "push_all s user [] = s"
| "push_all s user ((c, u4) # cs) = push_all (snd (handle_mcp_request s (push_request user c u4))) user cs"

text \<open>The pushes of a sequence that pass the handler's test of the context.\<close>

definition accepted :: "(json \<times> string) list \<Rightarrow> (json \<times> string) list" where
  "accepted cs = filter (\<lambda>(c, u4). truthy c) cs"

text \<open>
  A required parameter is missing from the parameters when its key is absent or its value
  is the empty string.
\<close>

definition missing_parameter :: "(string \<times> json) list \<Rightarrow> string \<Rightarrow> bool" where
  "missing_parameter ps k = (case map_of ps k of None \<Rightarrow> True | Some v \<Rightarrow> v = JStr [])"

definition recognized :: "string list" where
  "recognized = [''push_context'', ''pop_context'', ''list_contexts'', ''get_context'', ''clear_contexts'']"

definition unsupported :: "string \<Rightarrow> response" where
  "unsupported fn = Error (Text (''Function '' @ fn @ '' not supported''))"

section \<open>The relay's forwarding (relay.py, both versions)\<close>

text \<open>
  Lower case of a header name: \<^verbatim>\<open>str.lower\<close> on a name decoded as latin-1, which
  maps the letters A to Z and the accented capitals of latin-1 (codes 192 to 222,
  215 apart) to their small letters and leaves every other character alone.
\<close>

definition lower_char :: "char \<Rightarrow> char" where
  "lower_char c =
    (case map_of (zip ''ABCDEFGHIJKLMNOPQRSTUVWXYZ'' ''abcdefghijklmnopqrstuvwxyz'') c of
       Some l \<Rightarrow> l
     | None \<Rightarrow>
        (case map_of (zip
            [CHR 0xC0, CHR 0xC1, CHR 0xC2, CHR 0xC3, CHR 0xC4, CHR 0xC5, CHR 0xC6, CHR 0xC7,
             CHR 0xC8, CHR 0xC9, CHR 0xCA, CHR 0xCB, CHR 0xCC, CHR 0xCD, CHR 0xCE, CHR 0xCF,
             CHR 0xD0, CHR 0xD1, CHR 0xD2, CHR 0xD3, CHR 0xD4, CHR 0xD5, CHR 0xD6,
             CHR 0xD8, CHR 0xD9, CHR 0xDA, CHR 0xDB, CHR 0xDC, CHR 0xDD, CHR 0xDE]
            [CHR 0xE0, CHR 0xE1, CHR 0xE2, CHR 0xE3, CHR 0xE4, CHR 0xE5, CHR 0xE6, CHR 0xE7,
             CHR 0xE8, CHR 0xE9, CHR 0xEA, CHR 0xEB, CHR 0xEC, CHR 0xED, CHR 0xEE, CHR 0xEF,
             CHR 0xF0, CHR 0xF1, CHR 0xF2, CHR 0xF3, CHR 0xF4, CHR 0xF5, CHR 0xF6,
             CHR 0xF8, CHR 0xF9, CHR 0xFA, CHR 0xFB, CHR 0xFC, CHR 0xFD, CHR 0xFE]) c of
           Some l \<Rightarrow> l
         | None \<Rightarrow> c))"

definition lower :: "string \<Rightarrow> string" where
  "lower name = map lower_char name"

text \<open>
  \<^verbatim>\<open>request.headers\<close> is a \<^verbatim>\<open>Headers\<close> object of the framework over the list of
  (name, value) pairs of the request as the server hands it over. Its \<^verbatim>\<open>keys()\<close> are
  the names of the list as they are, and its \<^verbatim>\<open>__getitem__\<close> looks the lower-cased
  key up among the names of the list, returns the value of the first pair that has it,
  and raises \<^verbatim>\<open>KeyError\<close> when none has.
\<close>

datatype relay_exception = HeaderKeyError string | BodyLoadsError

definition headers_getitem :: "(string \<times> string) list \<Rightarrow> string \<Rightarrow> relay_exception + string" where
  "headers_getitem raw key =
    (case map_of raw (lower key) of
       None \<Rightarrow> Inl (HeaderKeyError key)
     | Some v \<Rightarrow> Inr v)"

text \<open>
  \<^verbatim>\<open>dict(request.headers)\<close>: for each key of \<^verbatim>\<open>keys()\<close> in turn, the dict gets the
  value \<^verbatim>\<open>__getitem__\<close> returns for it; the first \<^verbatim>\<open>KeyError\<close> ends the conversion.
\<close>

fun dict_from :: "(string \<times> string) list \<Rightarrow> string list \<Rightarrow> (string \<rightharpoonup> string)
    \<Rightarrow> relay_exception + (string \<rightharpoonup> string)" where
  "dict_from raw [] d = Inr d"
| "dict_from raw (k # ks) d =
    (case headers_getitem raw k of
       Inl e \<Rightarrow> Inl e
     | Inr v \<Rightarrow> dict_from raw ks (d(k \<mapsto> v)))"

definition dict_headers :: "(string \<times> string) list \<Rightarrow> relay_exception + (string \<rightharpoonup> string)" where
  "dict_headers raw = dict_from raw (map fst raw) Map.empty"

text \<open>The two \<^verbatim>\<open>del\<close> statements remove the keys \<^verbatim>\<open>authorization\<close> and \<^verbatim>\<open>Authorization\<close>.\<close>

definition strip_authorization :: "(string \<rightharpoonup> string) \<Rightarrow> (string \<rightharpoonup> string)" where
  "strip_authorization request_headers =
    (let headers1 = (if request_headers ''authorization'' \<noteq> None
                     then request_headers(''authorization'' := None) else request_headers);
         headers2 = (if headers1 ''Authorization'' \<noteq> None
                     then headers1(''Authorization'' := None) else headers1)
     in headers2)"

text \<open>The arguments of \<^verbatim>\<open>client.post\<close>.\<close>

record upstream_post =
  url :: string
  content :: string
  headers :: "string \<rightharpoonup> string"
  auth :: "(string \<times> string) option"

text \<open>
  What \<^verbatim>\<open>json.loads(body)\<close> does on the body of the request: it returns, it raises
  \<^verbatim>\<open>JSONDecodeError\<close>, which \<^verbatim>\<open>proxy\<close> catches and logs, or it raises another
  exception (a body that is not UTF-8), which only the outer handler catches.
\<close>

datatype loads_outcome = Returns | RaisesJSONDecodeError | RaisesOther

text \<open>
  \<^verbatim>\<open>proxy\<close> of context7-mcp-update/relay.py, up to the call of \<^verbatim>\<open>client.post\<close>: the
  arguments of the call, or the exception that sends the request to the outer
  \<^verbatim>\<open>except Exception\<close>, where it is answered with status 500 and nothing is passed
  upstream. The body is decoded, for the log, only when it is not empty.
\<close>

definition proxy :: "string \<Rightarrow> string \<Rightarrow> string \<Rightarrow> loads_outcome \<Rightarrow> (string \<times> string) list
    \<Rightarrow> relay_exception + upstream_post" where
  "proxy UPSTREAM_URL endpoint request_body loads raw =
    (if request_body \<noteq> [] \<and> loads = RaisesOther then Inl BodyLoadsError
     else
       (case dict_headers raw of
          Inl e \<Rightarrow> Inl e
        | Inr request_headers \<Rightarrow>
            Inr \<lparr>url = UPSTREAM_URL @ ''/mcp/'' @ endpoint,
                 content = request_body,
                 headers = strip_authorization request_headers,
                 auth = None\<rparr>))"

text \<open>\<^verbatim>\<open>proxy\<close> of context7-relay-update/relay.py, which passes \<^verbatim>\<open>auth=\<close> as well.\<close>

definition proxy_with_auth :: "string \<Rightarrow> string \<Rightarrow> string \<Rightarrow> loads_outcome \<Rightarrow> (string \<times> string) list
    \<Rightarrow> relay_exception + upstream_post" where
  "proxy_with_auth UPSTREAM_URL endpoint request_body loads raw =
    (if request_body \<noteq> [] \<and> loads = RaisesOther then Inl BodyLoadsError
     else
       (case dict_headers raw of
          Inl e \<Rightarrow> Inl e
        | Inr request_headers \<Rightarrow>
            Inr \<lparr>url = UPSTREAM_URL @ ''/mcp/'' @ endpoint,
                 content = request_body,
                 headers = strip_authorization request_headers,
                 auth = Some (''instabids'', ''secure123password'')\<rparr>))"

text \<open>
  A server that follows ASGI, as uvicorn does, hands the header names over in lower
  case.
\<close>

definition lower_case_names :: "(string \<times> string) list \<Rightarrow> bool" where
  "lower_case_names raw = list_all (\<lambda>(n, v). lower n = n) raw"

section \<open>What each branch of the handler does\<close>

lemma list_contexts_store: "snd (list_contexts s p) = s"
  unfolding list_contexts_def
  by (simp add: Let_def split: json.splits option.splits)

lemma get_context_store: "snd (get_context s p) = s"
  unfolding get_context_def
  by (simp add: Let_def split: json.splits option.splits dict_key.splits)

lemma same_users_push: "same_users s \<Longrightarrow> same_users (snd (push_context s p u4))"
  unfolding same_users_def push_context_def
  by (auto simp: Let_def split: json.splits option.splits)

lemma same_users_pop: "same_users s \<Longrightarrow> same_users (snd (pop_context s p))"
  unfolding same_users_def pop_context_def
  by (auto simp: Let_def split: json.splits option.splits)

lemma same_users_clear: "same_users s \<Longrightarrow> same_users (snd (clear_contexts s p))"
  unfolding same_users_def clear_contexts_def
  by (auto simp: Let_def split: json.splits option.splits)

lemma same_users_dispatch: "same_users s \<Longrightarrow> same_users (snd (dispatch s fn p u4))"
  unfolding dispatch_def
  by (simp add: same_users_push same_users_pop same_users_clear list_contexts_store get_context_store)

lemma handle_store:
  "snd (handle_mcp_request s r) =
    (case body r of
       Malformed \<Rightarrow> s
     | EmptyBody \<Rightarrow> snd (dispatch s (function_name r) (JObj []) (uuid4 r))
     | Decoded p \<Rightarrow> snd (dispatch s (function_name r) p (uuid4 r)))"
  unfolding handle_mcp_request_def
  by (simp split: request_body.splits prod.splits sum.splits)

lemma handle_response:
  "fst (handle_mcp_request s r) =
    (case body r of
       Malformed \<Rightarrow> Error (Text ''Invalid JSON in request body'')
     | EmptyBody \<Rightarrow>
         (case fst (dispatch s (function_name r) (JObj []) (uuid4 r)) of
            Inl e \<Rightarrow> Error (ExceptionText e) | Inr res \<Rightarrow> res)
     | Decoded p \<Rightarrow>
         (case fst (dispatch s (function_name r) p (uuid4 r)) of
            Inl e \<Rightarrow> Error (ExceptionText e) | Inr res \<Rightarrow> res))"
  unfolding handle_mcp_request_def
  by (simp split: request_body.splits prod.splits sum.splits)

lemma same_users_step: "same_users s \<Longrightarrow> same_users (snd (handle_mcp_request s r))"
  by (simp add: handle_store same_users_dispatch split: request_body.splits)

lemma reachable_same_users: "reachable s \<Longrightarrow> same_users s"
proof (induction rule: reachable.induct)
  case init
  show ?case by (simp add: same_users_def empty_store_def)
next
  case (step s r)
  then show ?case by (simp add: same_users_step)
qed

lemma same_users_stack:
  assumes "same_users s" and "contexts s u = Some d"
  shows "\<exists>st. context_stacks s u = Some st"
proof -
  from assms(1) have "(contexts s u = None) = (context_stacks s u = None)"
    by (simp add: same_users_def)
  with assms(2) show ?thesis by (cases "context_stacks s u") simp_all
qed

lemma same_users_dict:
  assumes "same_users s" and "context_stacks s u = Some st"
  shows "\<exists>d. contexts s u = Some d"
proof -
  from assms(1) have "(contexts s u = None) = (context_stacks s u = None)"
    by (simp add: same_users_def)
  with assms(2) show ?thesis by (cases "contexts s u") simp_all
qed

lemma push_context_ok:
  assumes "same_users s" and "truthy (dict_get ps ''user_id'')"
    and "hash_key (dict_get ps ''user_id'') = Some u"
    and "truthy (dict_get ps ''context'')"
  shows "push_context s (JObj ps) u4 =
    (Inr (Pushed (new_context_id u4)),
     s\<lparr>contexts := (contexts s)(u \<mapsto> (user_entries s u)(new_context_id u4 \<mapsto> dict_get ps ''context'')),
       context_stacks := (context_stacks s)(u \<mapsto> user_order s u @ [new_context_id u4])\<rparr>)"
proof (cases "contexts s u")
  case None
  with assms(1) have "context_stacks s u = None" by (simp add: same_users_def)
  with None assms show ?thesis
    by (simp add: push_context_def Let_def user_entries_def user_order_def)
next
  case (Some d)
  with assms(1) obtain st where "context_stacks s u = Some st" using same_users_stack by blast
  with Some assms show ?thesis
    by (simp add: push_context_def Let_def user_entries_def user_order_def)
qed

lemma push_context_rejected:
  assumes "truthy (dict_get ps ''user_id'')" and "\<not> truthy (dict_get ps ''context'')"
  shows "push_context s (JObj ps) u4 = (Inr (Error (Text ''context parameter is required'')), s)"
  using assms by (simp add: push_context_def Let_def)

lemma pop_context_empty:
  assumes "truthy (dict_get ps ''user_id'')" and "hash_key (dict_get ps ''user_id'') = Some u"
    and "user_order s u = []"
  shows "pop_context s (JObj ps) = (Inr (Failure (Text ''No contexts to pop'')), s)"
  using assms by (simp add: pop_context_def Let_def user_order_def split: option.splits)

lemma pop_context_ok:
  assumes "truthy (dict_get ps ''user_id'')" and "hash_key (dict_get ps ''user_id'') = Some u"
    and "context_stacks s u = Some st" and "st \<noteq> []" and "contexts s u = Some d"
  shows "pop_context s (JObj ps) =
    (Inr (Popped (last st) (inner_get d (last st))),
     s\<lparr>context_stacks := (context_stacks s)(u \<mapsto> butlast st),
       contexts := (contexts s)(u \<mapsto> d(last st := None))\<rparr>)"
  using assms by (simp add: pop_context_def Let_def)

lemma list_contexts_ok:
  assumes "same_users s" and "truthy (dict_get ps ''user_id'')"
    and "hash_key (dict_get ps ''user_id'') = Some u"
  shows "list_contexts s (JObj ps) = (Inr (Listed (listing s u)), s)"
proof (cases "context_stacks s u")
  case None
  with assms show ?thesis
    by (simp add: list_contexts_def Let_def listing_def user_order_def)
next
  case (Some st)
  with assms(1) obtain d where "contexts s u = Some d" using same_users_dict by blast
  with Some assms show ?thesis
    by (simp add: list_contexts_def Let_def listing_def user_order_def user_entries_def)
qed

lemma get_context_ok:
  assumes "truthy (dict_get ps ''user_id'')" and "hash_key (dict_get ps ''user_id'') = Some u"
    and "dict_get ps ''context_id'' = JStr c" and "c \<noteq> []"
  shows "get_context s (JObj ps) =
    (case user_entries s u c of
       None \<Rightarrow> (Inr (Failure (NotFoundText (JStr c) (dict_get ps ''user_id''))), s)
     | Some v \<Rightarrow> (Inr (Got c v), s))"
  using assms by (simp add: get_context_def Let_def user_entries_def split: option.splits)

lemma clear_contexts_ok:
  assumes "truthy (dict_get ps ''user_id'')" and "hash_key (dict_get ps ''user_id'') = Some u"
  shows "clear_contexts s (JObj ps) =
    (Inr Cleared,
     if contexts s u \<noteq> None
     then s\<lparr>contexts := (contexts s)(u \<mapsto> Map.empty), context_stacks := (context_stacks s)(u \<mapsto> [])\<rparr>
     else s)"
  using assms by (simp add: clear_contexts_def Let_def)

lemma dispatch_simps:
  "dispatch s ''push_context'' p u4 = push_context s p u4"
  "dispatch s ''pop_context'' p u4 = pop_context s p"
  "dispatch s ''list_contexts'' p u4 = list_contexts s p"
  "dispatch s ''get_context'' p u4 = get_context s p"
  "dispatch s ''clear_contexts'' p u4 = clear_contexts s p"
  by (simp_all add: dispatch_def)

lemma handle_decoded:
  "body r = Decoded p \<Longrightarrow> handle_mcp_request s r =
     (case dispatch s (function_name r) p (uuid4 r) of
        (Inl e, s') \<Rightarrow> (Error (ExceptionText e), s')
      | (Inr res, s') \<Rightarrow> (res, s'))"
  by (simp add: handle_mcp_request_def)

lemma push_context_pushed:
  assumes "push_context s (JObj ps) u4 = (Inr (Pushed x), s')"
  shows "\<exists>u d st. truthy (dict_get ps ''user_id'') \<and> hash_key (dict_get ps ''user_id'') = Some u
     \<and> context_stacks s' u = Some (st @ [x])
     \<and> contexts s' u = Some (d(x \<mapsto> dict_get ps ''context''))"
  using assms unfolding push_context_def
  by (auto simp: Let_def split: if_splits option.splits)

section \<open>Push, then pop\<close>

text \<open>
  C2. From any store: when a push request with parameters \<open>ps\<close> is answered with
  \<open>Pushed x\<close>, a pop request for the same \<^verbatim>\<open>user_id\<close> sent next is answered with
  \<open>Popped x c\<close>, where \<open>c\<close> is the \<^verbatim>\<open>context\<close> value that was pushed: the identifier
  is the one push returned and the context is the one pushed.
\<close>

theorem push_then_pop:
  assumes "function_name r = ''push_context''" and "body r = Decoded (JObj ps)"
    and "handle_mcp_request s r = (Pushed x, s')"
    and "function_name r' = ''pop_context''" and "body r' = Decoded (JObj ps')"
    and "dict_get ps' ''user_id'' = dict_get ps ''user_id''"
  shows "fst (handle_mcp_request s' r') = Popped x (dict_get ps ''context'')"
proof -
  from assms(1-3) have "push_context s (JObj ps) (uuid4 r) = (Inr (Pushed x), s')"
    by (auto simp: handle_decoded dispatch_simps split: prod.splits sum.splits)
  then obtain u d st where u: "truthy (dict_get ps ''user_id'')"
      "hash_key (dict_get ps ''user_id'') = Some u"
      "context_stacks s' u = Some (st @ [x])"
      "contexts s' u = Some (d(x \<mapsto> dict_get ps ''context''))"
    using push_context_pushed by blast
  with assms(6) have "fst (pop_context s' (JObj ps')) = Inr (Popped x (dict_get ps ''context''))"
    by (simp add: pop_context_ok inner_get_def)
  with assms(4,5) show ?thesis
    by (simp add: handle_response dispatch_simps)
qed

theorem push_then_pop_witness:
  "fst (handle_mcp_request
         (snd (handle_mcp_request empty_store (push_request ''u1'' (JObj [(''q'', JStr ''a'')]) ''3f2a1b4c-5d6e-4f70-8a9b-0c1d2e3f4a5b'')))
         (user_request ''pop_context'' ''u1''))
   = Popped ''ctx_3f2a1b4c'' (JObj [(''q'', JStr ''a'')])"
proof -
  let ?r = "push_request ''u1'' (JObj [(''q'', JStr ''a'')]) ''3f2a1b4c-5d6e-4f70-8a9b-0c1d2e3f4a5b''"
  let ?ps = "[(''user_id'', JStr ''u1''), (''context'', JObj [(''q'', JStr ''a'')])]"
  have 1: "function_name ?r = ''push_context''" by (simp add: push_request_def)
  have 2: "body ?r = Decoded (JObj ?ps)" by (simp add: push_request_def)
  have 3: "handle_mcp_request empty_store ?r = (Pushed ''ctx_3f2a1b4c'', snd (handle_mcp_request empty_store ?r))"
    by (simp add: push_request_def handle_mcp_request_def dispatch_def push_context_def
        empty_store_def dict_get_def new_context_id_def Let_def)
  have 4: "function_name (user_request ''pop_context'' ''u1'') = ''pop_context''"
    by (simp add: user_request_def)
  have 5: "body (user_request ''pop_context'' ''u1'') = Decoded (JObj [(''user_id'', JStr ''u1'')])"
    by (simp add: user_request_def)
  have 6: "dict_get [(''user_id'', JStr ''u1'')] ''user_id'' = dict_get ?ps ''user_id''"
    by (simp add: dict_get_def)
  from push_then_pop [OF 1 2 3 4 5 6] show ?thesis by (simp add: dict_get_def)
qed

section \<open>The errors of the dispatcher\<close>

lemma missing_parameter_falsy: "missing_parameter ps k \<Longrightarrow> \<not> truthy (dict_get ps k)"
  by (auto simp: missing_parameter_def dict_get_def split: option.splits)

lemma dispatch_unsupported:
  "fn \<notin> set recognized \<Longrightarrow> dispatch s fn p u4 = (Inr (unsupported fn), s)"
  by (simp add: dispatch_def recognized_def unsupported_def)

lemma push_context_supported: "fst (push_context s p u4) \<noteq> Inr (unsupported ''push_context'')"
  unfolding push_context_def unsupported_def
  by (simp add: Let_def split: json.splits option.splits)

lemma pop_context_supported: "fst (pop_context s p) \<noteq> Inr (unsupported ''pop_context'')"
  unfolding pop_context_def unsupported_def
  by (simp add: Let_def split: json.splits option.splits)

lemma list_contexts_supported: "fst (list_contexts s p) \<noteq> Inr (unsupported ''list_contexts'')"
  unfolding list_contexts_def unsupported_def
  by (simp add: Let_def split: json.splits option.splits)

lemma get_context_supported: "fst (get_context s p) \<noteq> Inr (unsupported ''get_context'')"
  unfolding get_context_def unsupported_def
  by (simp add: Let_def split: json.splits option.splits dict_key.splits)

lemma clear_contexts_supported: "fst (clear_contexts s p) \<noteq> Inr (unsupported ''clear_contexts'')"
  unfolding clear_contexts_def unsupported_def
  by (simp add: Let_def split: json.splits option.splits)

lemma dispatch_supported:
  assumes "fn \<in> set recognized"
  shows "fst (dispatch s fn p u4) \<noteq> Inr (unsupported fn)"
  using assms push_context_supported pop_context_supported list_contexts_supported
    get_context_supported clear_contexts_supported
  by (auto simp: recognized_def dispatch_simps)

lemma exception_supported: "Error (ExceptionText e) \<noteq> unsupported fn"
  by (simp add: unsupported_def)

lemma handle_supported:
  assumes "function_name r \<in> set recognized"
  shows "fst (handle_mcp_request s r) \<noteq> unsupported (function_name r)"
proof (cases "body r")
  case Malformed
  then show ?thesis by (simp add: handle_response unsupported_def)
next
  case EmptyBody
  with dispatch_supported [OF assms, of s "JObj []" "uuid4 r"] show ?thesis
    by (auto simp: handle_response exception_supported split: sum.splits)
next
  case (Decoded p)
  with dispatch_supported [OF assms, of s p "uuid4 r"] show ?thesis
    by (auto simp: handle_response exception_supported split: sum.splits)
qed

lemma dispatch_user_id_missing:
  assumes "fn \<in> set recognized" and "\<not> truthy (dict_get ps ''user_id'')"
  shows "dispatch s fn (JObj ps) u4 = (Inr (Error (Text ''user_id parameter is required'')), s)"
  using assms
  by (auto simp: recognized_def dispatch_simps push_context_def pop_context_def list_contexts_def
      get_context_def clear_contexts_def Let_def)

lemma get_context_id_missing:
  assumes "truthy (dict_get ps ''user_id'')" and "\<not> truthy (dict_get ps ''context_id'')"
  shows "get_context s (JObj ps) = (Inr (Error (Text ''context_id parameter is required'')), s)"
  using assms by (simp add: get_context_def Let_def)


lemma handle_unsupported:
  assumes "function_name r \<notin> set recognized" and "body r \<noteq> Malformed"
  shows "handle_mcp_request s r = (unsupported (function_name r), s)"
  using assms
  by (cases "body r") (simp_all add: handle_mcp_request_def dispatch_unsupported)

lemma handle_user_id_missing:
  assumes "function_name r \<in> set recognized" and "body r = Decoded (JObj ps)"
    and "\<not> truthy (dict_get ps ''user_id'')"
  shows "handle_mcp_request s r = (Error (Text ''user_id parameter is required''), s)"
  using assms by (simp add: handle_mcp_request_def dispatch_user_id_missing)

lemma handle_empty_body:
  assumes "function_name r \<in> set recognized" and "body r = EmptyBody"
  shows "handle_mcp_request s r = (Error (Text ''user_id parameter is required''), s)"
  using assms by (simp add: handle_mcp_request_def dispatch_user_id_missing dict_get_def)

text \<open>
  C8. The dispatcher answers a function name other than the five with the error that
  names it (whatever the decoded parameters, also for an empty body), and answers none
  of the five that way. For each of the five, a \<^verbatim>\<open>user_id\<close> that is absent or empty
  gives the error naming \<^verbatim>\<open>user_id\<close>; with a \<^verbatim>\<open>user_id\<close> present, an absent or empty
  \<^verbatim>\<open>context_id\<close> of a get and an absent or empty \<^verbatim>\<open>context\<close> of a push give the error
  naming that parameter. In each of these cases the answer is the same for every store
  and the store is returned as it was.
\<close>

theorem dispatcher_errors:
  "(function_name r \<notin> set recognized \<and> body r \<noteq> Malformed \<longrightarrow>
      handle_mcp_request s r = (unsupported (function_name r), s))
   \<and> (function_name r \<in> set recognized \<longrightarrow>
      fst (handle_mcp_request s r) \<noteq> unsupported (function_name r))
   \<and> (function_name r \<in> set recognized \<and> body r = Decoded (JObj ps)
        \<and> missing_parameter ps ''user_id'' \<longrightarrow>
      handle_mcp_request s r = (Error (Text ''user_id parameter is required''), s))
   \<and> (function_name r \<in> set recognized \<and> body r = EmptyBody \<longrightarrow>
      handle_mcp_request s r = (Error (Text ''user_id parameter is required''), s))
   \<and> (function_name r = ''get_context'' \<and> body r = Decoded (JObj ps)
        \<and> truthy (dict_get ps ''user_id'') \<and> missing_parameter ps ''context_id'' \<longrightarrow>
      handle_mcp_request s r = (Error (Text ''context_id parameter is required''), s))
   \<and> (function_name r = ''push_context'' \<and> body r = Decoded (JObj ps)
        \<and> truthy (dict_get ps ''user_id'') \<and> missing_parameter ps ''context'' \<longrightarrow>
      handle_mcp_request s r = (Error (Text ''context parameter is required''), s))"
proof (intro conjI impI)
  assume "function_name r \<notin> set recognized \<and> body r \<noteq> Malformed"
  then show "handle_mcp_request s r = (unsupported (function_name r), s)"
    by (simp add: handle_unsupported)
next
  assume "function_name r \<in> set recognized"
  then show "fst (handle_mcp_request s r) \<noteq> unsupported (function_name r)"
    by (rule handle_supported)
next
  assume "function_name r \<in> set recognized \<and> body r = Decoded (JObj ps)
    \<and> missing_parameter ps ''user_id''"
  then show "handle_mcp_request s r = (Error (Text ''user_id parameter is required''), s)"
    by (simp add: handle_user_id_missing missing_parameter_falsy)
next
  assume "function_name r \<in> set recognized \<and> body r = EmptyBody"
  then show "handle_mcp_request s r = (Error (Text ''user_id parameter is required''), s)"
    by (simp add: handle_empty_body)
next
  assume "function_name r = ''get_context'' \<and> body r = Decoded (JObj ps)
    \<and> truthy (dict_get ps ''user_id'') \<and> missing_parameter ps ''context_id''"
  then show "handle_mcp_request s r = (Error (Text ''context_id parameter is required''), s)"
    by (simp add: handle_mcp_request_def dispatch_simps get_context_id_missing
        missing_parameter_falsy)
next
  assume "function_name r = ''push_context'' \<and> body r = Decoded (JObj ps)
    \<and> truthy (dict_get ps ''user_id'') \<and> missing_parameter ps ''context''"
  then show "handle_mcp_request s r = (Error (Text ''context parameter is required''), s)"
    by (simp add: handle_mcp_request_def dispatch_simps push_context_rejected
        missing_parameter_falsy)
qed

theorem dispatcher_errors_witness:
  "handle_mcp_request empty_store (user_request ''drop_context'' ''u1'')
     = (Error (Text ''Function drop_context not supported''), empty_store)
   \<and> fst (handle_mcp_request empty_store (user_request ''pop_context'' ''u1''))
     \<noteq> Error (Text ''Function pop_context not supported'')
   \<and> handle_mcp_request empty_store (user_request ''list_contexts'' [])
     = (Error (Text ''user_id parameter is required''), empty_store)
   \<and> handle_mcp_request empty_store \<lparr>function_name = ''clear_contexts'', body = EmptyBody, uuid4 = []\<rparr>
     = (Error (Text ''user_id parameter is required''), empty_store)
   \<and> handle_mcp_request empty_store (user_request ''get_context'' ''u1'')
     = (Error (Text ''context_id parameter is required''), empty_store)
   \<and> handle_mcp_request empty_store (push_request ''u1'' (JStr []) ''3f2a1b4c-5d6e-4f70-8a9b-0c1d2e3f4a5b'')
     = (Error (Text ''context parameter is required''), empty_store)"
  using
    dispatcher_errors [of "user_request ''drop_context'' ''u1''" empty_store "[]"]
    dispatcher_errors [of "user_request ''pop_context'' ''u1''" empty_store "[]"]
    dispatcher_errors [of "user_request ''list_contexts'' []" empty_store "[(''user_id'', JStr [])]"]
    dispatcher_errors [of "\<lparr>function_name = ''clear_contexts'', body = EmptyBody, uuid4 = []\<rparr>" empty_store "[]"]
    dispatcher_errors [of "user_request ''get_context'' ''u1''" empty_store "[(''user_id'', JStr ''u1'')]"]
    dispatcher_errors [of "push_request ''u1'' (JStr []) ''3f2a1b4c-5d6e-4f70-8a9b-0c1d2e3f4a5b''" empty_store
      "[(''user_id'', JStr ''u1''), (''context'', JStr [])]"]
  by (simp add: user_request_def push_request_def recognized_def unsupported_def
      missing_parameter_def dict_get_def)

section \<open>What leaves the store as it was\<close>

lemma push_context_error:
  assumes "same_users s"
    and "is_error (case fst (push_context s p u4) of Inl e \<Rightarrow> Error (ExceptionText e) | Inr res \<Rightarrow> res)"
  shows "snd (push_context s p u4) = s"
proof (cases p)
  case (JObj ps)
  show ?thesis
  proof (cases "truthy (dict_get ps ''user_id'') \<and> truthy (dict_get ps ''context'')")
    case True
    show ?thesis
    proof (cases "hash_key (dict_get ps ''user_id'')")
      case None
      with JObj True show ?thesis by (simp add: push_context_def Let_def)
    next
      case (Some u)
      with JObj True assms have False by (simp add: push_context_ok is_error_def)
      then show ?thesis ..
    qed
  next
    case False
    with JObj show ?thesis by (auto simp: push_context_def Let_def)
  qed
qed (simp_all add: push_context_def)

lemma pop_context_error:
  assumes "same_users s"
    and "is_error (case fst (pop_context s p) of Inl e \<Rightarrow> Error (ExceptionText e) | Inr res \<Rightarrow> res)"
  shows "snd (pop_context s p) = s"
proof (cases p)
  case (JObj ps)
  show ?thesis
  proof (cases "truthy (dict_get ps ''user_id'')")
    case True
    show ?thesis
    proof (cases "hash_key (dict_get ps ''user_id'')")
      case None
      with JObj True show ?thesis by (simp add: pop_context_def Let_def)
    next
      case (Some u)
      show ?thesis
      proof (cases "user_order s u = []")
        case True
        with JObj \<open>truthy (dict_get ps ''user_id'')\<close> Some show ?thesis
          by (simp add: pop_context_empty)
      next
        case False
        then obtain st where st: "context_stacks s u = Some st" "st \<noteq> []"
          by (auto simp: user_order_def split: option.splits)
        with assms(1) obtain d where "contexts s u = Some d" using same_users_dict by blast
        with st JObj \<open>truthy (dict_get ps ''user_id'')\<close> Some assms(2) have False
          by (simp add: pop_context_ok is_error_def)
        then show ?thesis ..
      qed
    qed
  next
    case False
    with JObj show ?thesis by (simp add: pop_context_def Let_def)
  qed
qed (simp_all add: pop_context_def)

lemma clear_contexts_error:
  assumes "is_error (case fst (clear_contexts s p) of Inl e \<Rightarrow> Error (ExceptionText e) | Inr res \<Rightarrow> res)"
  shows "snd (clear_contexts s p) = s"
  using assms unfolding clear_contexts_def
  by (auto simp: Let_def is_error_def split: json.splits option.splits if_splits)

lemma dispatch_error:
  assumes "same_users s"
    and "is_error (case fst (dispatch s fn p u4) of Inl e \<Rightarrow> Error (ExceptionText e) | Inr res \<Rightarrow> res)"
  shows "snd (dispatch s fn p u4) = s"
  using assms unfolding dispatch_def
  by (auto simp: push_context_error pop_context_error clear_contexts_error
      list_contexts_store get_context_store split: if_splits)

lemma handle_error:
  assumes "same_users s" and "is_error (fst (handle_mcp_request s r))"
  shows "snd (handle_mcp_request s r) = s"
  using assms
  by (cases "body r") (simp_all add: handle_store handle_response dispatch_error)

lemma handle_reads:
  assumes "function_name r = ''get_context'' \<or> function_name r = ''list_contexts''"
  shows "snd (handle_mcp_request s r) = s"
  using assms
  by (cases "body r") (auto simp: handle_store dispatch_simps list_contexts_store get_context_store)

lemma handle_changes:
  assumes "snd (handle_mcp_request s r) \<noteq> s"
  shows "function_name r = ''push_context'' \<or> function_name r = ''pop_context''
    \<or> function_name r = ''clear_contexts''"
proof (rule ccontr)
  assume n: "\<not> ?thesis"
  then have "snd (dispatch s (function_name r) p u4) = s" for p u4
    by (simp add: dispatch_def list_contexts_store get_context_store)
  then have "snd (handle_mcp_request s r) = s"
    by (cases "body r") (simp_all add: handle_store)
  with assms show False by simp
qed

text \<open>
  C9. In every reachable store: a get or a list returns the store as it was; a call
  answered with an error envelope (\<open>Error\<close> or \<open>Failure\<close>: a missing parameter, a
  rejected context, a pop on an empty stack, a get that finds nothing, an unsupported
  function name, a body that is not JSON, a caught exception) returns the store as it
  was; and a call that changes the store is a push, a pop or a clear answered without
  an error.
\<close>

theorem store_frame:
  assumes "reachable s"
  shows "(function_name r = ''get_context'' \<or> function_name r = ''list_contexts'' \<longrightarrow>
            snd (handle_mcp_request s r) = s)
       \<and> (is_error (fst (handle_mcp_request s r)) \<longrightarrow> snd (handle_mcp_request s r) = s)
       \<and> (snd (handle_mcp_request s r) \<noteq> s \<longrightarrow>
            (function_name r = ''push_context'' \<or> function_name r = ''pop_context''
              \<or> function_name r = ''clear_contexts'')
            \<and> \<not> is_error (fst (handle_mcp_request s r)))"
  using assms handle_reads [of r s] handle_changes [of s r]
    handle_error [OF reachable_same_users, of s r]
  by blast


lemma one_push:
  "handle_mcp_request empty_store (push_request ''u1'' (JStr ''a'') ''3f2a1b4c-5d6e-4f70-8a9b-0c1d2e3f4a5b'')
   = (Pushed ''ctx_3f2a1b4c'',
      \<lparr>contexts = [KStr ''u1'' \<mapsto> [''ctx_3f2a1b4c'' \<mapsto> JStr ''a'']],
       context_stacks = [KStr ''u1'' \<mapsto> [''ctx_3f2a1b4c'']]\<rparr>)"
  by (simp add: push_request_def handle_mcp_request_def dispatch_def push_context_def
      empty_store_def dict_get_def new_context_id_def Let_def)

theorem store_frame_witness:
  "reachable (snd (handle_mcp_request empty_store
      (push_request ''u1'' (JStr ''a'') ''3f2a1b4c-5d6e-4f70-8a9b-0c1d2e3f4a5b'')))
   \<and> snd (handle_mcp_request
        (snd (handle_mcp_request empty_store
          (push_request ''u1'' (JStr ''a'') ''3f2a1b4c-5d6e-4f70-8a9b-0c1d2e3f4a5b'')))
        (user_request ''list_contexts'' ''u1''))
     = snd (handle_mcp_request empty_store
          (push_request ''u1'' (JStr ''a'') ''3f2a1b4c-5d6e-4f70-8a9b-0c1d2e3f4a5b''))
   \<and> is_error (fst (handle_mcp_request
        (snd (handle_mcp_request empty_store
          (push_request ''u1'' (JStr ''a'') ''3f2a1b4c-5d6e-4f70-8a9b-0c1d2e3f4a5b'')))
        (get_request ''u1'' ''ctx_00000000'')))
   \<and> snd (handle_mcp_request
        (snd (handle_mcp_request empty_store
          (push_request ''u1'' (JStr ''a'') ''3f2a1b4c-5d6e-4f70-8a9b-0c1d2e3f4a5b'')))
        (get_request ''u1'' ''ctx_00000000''))
     = snd (handle_mcp_request empty_store
          (push_request ''u1'' (JStr ''a'') ''3f2a1b4c-5d6e-4f70-8a9b-0c1d2e3f4a5b''))
   \<and> snd (handle_mcp_request
        (snd (handle_mcp_request empty_store
          (push_request ''u1'' (JStr ''a'') ''3f2a1b4c-5d6e-4f70-8a9b-0c1d2e3f4a5b'')))
        (user_request ''pop_context'' ''u1''))
     \<noteq> snd (handle_mcp_request empty_store
          (push_request ''u1'' (JStr ''a'') ''3f2a1b4c-5d6e-4f70-8a9b-0c1d2e3f4a5b''))
   \<and> \<not> is_error (fst (handle_mcp_request
        (snd (handle_mcp_request empty_store
          (push_request ''u1'' (JStr ''a'') ''3f2a1b4c-5d6e-4f70-8a9b-0c1d2e3f4a5b'')))
        (user_request ''pop_context'' ''u1'')))"
proof -
  let ?S = "snd (handle_mcp_request empty_store
      (push_request ''u1'' (JStr ''a'') ''3f2a1b4c-5d6e-4f70-8a9b-0c1d2e3f4a5b''))"
  have r: "reachable ?S" by (rule reachable.step [OF reachable.init])
  have l: "function_name (user_request ''list_contexts'' ''u1'') = ''get_context''
      \<or> function_name (user_request ''list_contexts'' ''u1'') = ''list_contexts''"
    by (simp add: user_request_def)
  have S: "?S = \<lparr>contexts = [KStr ''u1'' \<mapsto> [''ctx_3f2a1b4c'' \<mapsto> JStr ''a'']],
       context_stacks = [KStr ''u1'' \<mapsto> [''ctx_3f2a1b4c'']]\<rparr>"
    by (simp add: one_push)
  have g: "is_error (fst (handle_mcp_request ?S (get_request ''u1'' ''ctx_00000000'')))"
    unfolding S
    by (simp add: get_request_def handle_mcp_request_def dispatch_def get_context_def
        dict_get_def Let_def is_error_def)
  have "user_order (snd (handle_mcp_request ?S (user_request ''pop_context'' ''u1''))) (KStr ''u1'') = []"
    unfolding S
    by (simp add: user_request_def handle_mcp_request_def dispatch_def pop_context_def
        dict_get_def Let_def user_order_def)
  moreover have "user_order ?S (KStr ''u1'') = [''ctx_3f2a1b4c'']"
    unfolding S by (simp add: user_order_def)
  ultimately have p: "snd (handle_mcp_request ?S (user_request ''pop_context'' ''u1'')) \<noteq> ?S"
    by auto
  from r l g p
    store_frame [OF r, of "user_request ''list_contexts'' ''u1''"]
    store_frame [OF r, of "get_request ''u1'' ''ctx_00000000''"]
    store_frame [OF r, of "user_request ''pop_context'' ''u1''"]
  show ?thesis by blast
qed

section \<open>Clear\<close>

lemma handle_clear:
  assumes "function_name r = ''clear_contexts''" and "body r = Decoded (JObj ps)"
    and "dict_get ps ''user_id'' = JStr user" and "user \<noteq> []"
  shows "handle_mcp_request s r =
    (Cleared,
     if contexts s (KStr user) \<noteq> None
     then s\<lparr>contexts := (contexts s)(KStr user \<mapsto> Map.empty),
            context_stacks := (context_stacks s)(KStr user \<mapsto> [])\<rparr>
     else s)"
  using assms by (simp add: handle_mcp_request_def dispatch_simps clear_contexts_ok)

lemma handle_list:
  assumes "same_users s" and "function_name r = ''list_contexts''"
    and "body r = Decoded (JObj ps)" and "dict_get ps ''user_id'' = JStr user" and "user \<noteq> []"
  shows "handle_mcp_request s r = (Listed (listing s (KStr user)), s)"
  using assms by (simp add: handle_mcp_request_def dispatch_simps list_contexts_ok)

text \<open>
  C6. For a clear request naming a non-empty string \<^verbatim>\<open>user_id\<close>, in every reachable
  store: the answer is \<open>Cleared\<close> (\<^verbatim>\<open>{"success": True}\<close>), also for a user never seen;
  when the user has no order and no entries the store is returned as it was; clearing
  a second time returns the store of the first clear; and a list request for that user
  sent after the clear is answered with the empty sequence.
\<close>

theorem clear_contexts_succeeds:
  assumes "reachable s"
    and "function_name r = ''clear_contexts''" and "body r = Decoded (JObj ps)"
    and "dict_get ps ''user_id'' = JStr user" and "user \<noteq> []"
    and "function_name r' = ''list_contexts''" and "body r' = Decoded (JObj ps')"
    and "dict_get ps' ''user_id'' = JStr user"
  shows "fst (handle_mcp_request s r) = Cleared
       \<and> (user_order s (KStr user) = [] \<and> user_entries s (KStr user) = Map.empty \<longrightarrow>
            snd (handle_mcp_request s r) = s)
       \<and> snd (handle_mcp_request (snd (handle_mcp_request s r)) r) = snd (handle_mcp_request s r)
       \<and> fst (handle_mcp_request (snd (handle_mcp_request s r)) r') = Listed []"
proof (intro conjI impI)
  let ?u = "KStr user"
  note c = handle_clear [OF assms(2-5)]
  from assms(1) have su: "same_users s" by (rule reachable_same_users)
  show "fst (handle_mcp_request s r) = Cleared" by (simp add: c)
  show "snd (handle_mcp_request (snd (handle_mcp_request s r)) r) = snd (handle_mcp_request s r)"
    by (simp add: c)
  have "reachable (snd (handle_mcp_request s r))" using assms(1) by (rule reachable.step)
  then have "same_users (snd (handle_mcp_request s r))" by (rule reachable_same_users)
  then have "fst (handle_mcp_request (snd (handle_mcp_request s r)) r')
      = Listed (listing (snd (handle_mcp_request s r)) ?u)"
    using assms(5-8) by (simp add: handle_list)
  moreover have "listing (snd (handle_mcp_request s r)) ?u = []"
  proof (cases "contexts s ?u")
    case None
    with su have "context_stacks s ?u = None" by (simp add: same_users_def)
    with None show ?thesis by (simp add: c listing_def user_order_def)
  next
    case (Some d)
    then show ?thesis by (simp add: c listing_def user_order_def)
  qed
  ultimately show "fst (handle_mcp_request (snd (handle_mcp_request s r)) r') = Listed []"
    by simp
next
  assume e: "user_order s (KStr user) = [] \<and> user_entries s (KStr user) = Map.empty"
  let ?u = "KStr user"
  note c = handle_clear [OF assms(2-5)]
  from assms(1) have su: "same_users s" by (rule reachable_same_users)
  show "snd (handle_mcp_request s r) = s"
  proof (cases "contexts s ?u")
    case None
    then show ?thesis by (simp add: c)
  next
    case (Some d)
    with su obtain st where st: "context_stacks s ?u = Some st" using same_users_stack by blast
    from e Some st have "contexts s ?u = Some Map.empty" "context_stacks s ?u = Some []"
      by (simp_all add: user_order_def user_entries_def)
    then have "(contexts s)(?u \<mapsto> Map.empty) = contexts s"
      "(context_stacks s)(?u \<mapsto> []) = context_stacks s"
      by (simp_all add: map_upd_triv)
    with Some show ?thesis by (simp add: c)
  qed
qed


theorem clear_contexts_succeeds_witness:
  "fst (handle_mcp_request empty_store (user_request ''clear_contexts'' ''u1'')) = Cleared
   \<and> snd (handle_mcp_request empty_store (user_request ''clear_contexts'' ''u1'')) = empty_store
   \<and> fst (handle_mcp_request
        (snd (handle_mcp_request empty_store
          (push_request ''u1'' (JStr ''a'') ''3f2a1b4c-5d6e-4f70-8a9b-0c1d2e3f4a5b'')))
        (user_request ''clear_contexts'' ''u1'')) = Cleared
   \<and> fst (handle_mcp_request
        (snd (handle_mcp_request
          (snd (handle_mcp_request empty_store
            (push_request ''u1'' (JStr ''a'') ''3f2a1b4c-5d6e-4f70-8a9b-0c1d2e3f4a5b'')))
          (user_request ''clear_contexts'' ''u1'')))
        (user_request ''list_contexts'' ''u1'')) = Listed []"
proof -
  let ?S = "snd (handle_mcp_request empty_store
      (push_request ''u1'' (JStr ''a'') ''3f2a1b4c-5d6e-4f70-8a9b-0c1d2e3f4a5b''))"
  let ?c = "user_request ''clear_contexts'' ''u1''"
  let ?l = "user_request ''list_contexts'' ''u1''"
  have r: "reachable ?S" by (rule reachable.step [OF reachable.init])
  have c: "function_name ?c = ''clear_contexts''" "body ?c = Decoded (JObj [(''user_id'', JStr ''u1'')])"
    and l: "function_name ?l = ''list_contexts''" "body ?l = Decoded (JObj [(''user_id'', JStr ''u1'')])"
    and u: "dict_get [(''user_id'', JStr ''u1'')] ''user_id'' = JStr ''u1''" "''u1'' \<noteq> []"
    by (simp_all add: user_request_def dict_get_def)
  have e: "user_order empty_store (KStr ''u1'') = [] \<and> user_entries empty_store (KStr ''u1'') = Map.empty"
    by (simp add: user_order_def user_entries_def empty_store_def)
  from e clear_contexts_succeeds [OF reachable.init c u l u(1)]
    clear_contexts_succeeds [OF r c u l u(1)]
  show ?thesis by blast
qed

section \<open>The answers of pop and get\<close>

lemma handle_pop_empty:
  assumes "function_name r = ''pop_context''" and "body r = Decoded (JObj ps)"
    and "dict_get ps ''user_id'' = JStr user" and "user \<noteq> []"
    and "user_order s (KStr user) = []"
  shows "handle_mcp_request s r = (Failure (Text ''No contexts to pop''), s)"
  using assms by (simp add: handle_mcp_request_def dispatch_simps pop_context_empty)

lemma handle_pop:
  assumes "same_users s" and "function_name r = ''pop_context''" and "body r = Decoded (JObj ps)"
    and "dict_get ps ''user_id'' = JStr user" and "user \<noteq> []"
    and "user_order s (KStr user) \<noteq> []"
  shows "handle_mcp_request s r =
    (Popped (last (user_order s (KStr user)))
       (inner_get (user_entries s (KStr user)) (last (user_order s (KStr user)))),
     s\<lparr>context_stacks := (context_stacks s)(KStr user \<mapsto> butlast (user_order s (KStr user))),
       contexts := (contexts s)(KStr user \<mapsto>
         (user_entries s (KStr user))(last (user_order s (KStr user)) := None))\<rparr>)"
proof -
  from assms(6) obtain st where st: "context_stacks s (KStr user) = Some st" "st \<noteq> []"
    by (auto simp: user_order_def split: option.splits)
  with assms(1) obtain d where d: "contexts s (KStr user) = Some d"
    using same_users_dict by blast
  from st d assms(2-5) show ?thesis
    by (simp add: handle_mcp_request_def dispatch_simps pop_context_ok user_order_def
        user_entries_def)
qed

lemma handle_get:
  assumes "function_name g = ''get_context''" and "body g = Decoded (JObj qs)"
    and "dict_get qs ''user_id'' = JStr user" and "user \<noteq> []"
    and "dict_get qs ''context_id'' = JStr c" and "c \<noteq> []"
  shows "handle_mcp_request s g =
    (case user_entries s (KStr user) c of
       None \<Rightarrow> (Failure (NotFoundText (JStr c) (JStr user)), s)
     | Some v \<Rightarrow> (Got c v, s))"
  using assms
  by (simp add: handle_mcp_request_def dispatch_simps get_context_ok split: option.splits)

section \<open>The contexts a push accepts\<close>

lemma falsy_values:
  "(\<not> truthy c) = (c = JNull \<or> c = JBool False \<or> c = JInt 0 \<or> c = JStr [] \<or> c = JArr [] \<or> c = JObj [])"
  by (cases c) simp_all

lemma handle_push:
  assumes "same_users s" and "function_name r = ''push_context''" and "body r = Decoded (JObj ps)"
    and "dict_get ps ''user_id'' = JStr user" and "user \<noteq> []"
    and "truthy (dict_get ps ''context'')"
  shows "handle_mcp_request s r =
    (Pushed (new_context_id (uuid4 r)),
     s\<lparr>contexts := (contexts s)(KStr user \<mapsto>
         (user_entries s (KStr user))(new_context_id (uuid4 r) \<mapsto> dict_get ps ''context'')),
       context_stacks := (context_stacks s)(KStr user \<mapsto>
         user_order s (KStr user) @ [new_context_id (uuid4 r)])\<rparr>)"
  using assms by (simp add: handle_mcp_request_def dispatch_simps push_context_ok)

lemma handle_push_rejected:
  assumes "function_name r = ''push_context''" and "body r = Decoded (JObj ps)"
    and "dict_get ps ''user_id'' = JStr user" and "user \<noteq> []"
    and "\<not> truthy (dict_get ps ''context'')"
  shows "handle_mcp_request s r = (Error (Text ''context parameter is required''), s)"
  using assms by (simp add: handle_mcp_request_def dispatch_simps push_context_rejected)

text \<open>
  C4, as the claim states it, fails: a push whose \<^verbatim>\<open>context\<close> is the empty object, the
  empty array, the empty string, zero or false is answered with the error
  \<^verbatim>\<open>context parameter is required\<close> and stores nothing.
\<close>

theorem push_falsy_context_rejected:
  "handle_mcp_request empty_store (push_request ''u1'' (JObj []) ''3f2a1b4c-5d6e-4f70-8a9b-0c1d2e3f4a5b'')
     = (Error (Text ''context parameter is required''), empty_store)
   \<and> handle_mcp_request empty_store (push_request ''u1'' (JArr []) ''3f2a1b4c-5d6e-4f70-8a9b-0c1d2e3f4a5b'')
     = (Error (Text ''context parameter is required''), empty_store)
   \<and> handle_mcp_request empty_store (push_request ''u1'' (JStr []) ''3f2a1b4c-5d6e-4f70-8a9b-0c1d2e3f4a5b'')
     = (Error (Text ''context parameter is required''), empty_store)
   \<and> handle_mcp_request empty_store (push_request ''u1'' (JInt 0) ''3f2a1b4c-5d6e-4f70-8a9b-0c1d2e3f4a5b'')
     = (Error (Text ''context parameter is required''), empty_store)
   \<and> handle_mcp_request empty_store (push_request ''u1'' (JBool False) ''3f2a1b4c-5d6e-4f70-8a9b-0c1d2e3f4a5b'')
     = (Error (Text ''context parameter is required''), empty_store)"
  by (simp add: push_request_def handle_mcp_request_def dispatch_def push_context_def
      dict_get_def Let_def)

text \<open>
  C4, amended. In every reachable store, for a push naming a non-empty string
  \<^verbatim>\<open>user_id\<close>: the push is answered with the error \<^verbatim>\<open>context parameter is required\<close>,
  the store unchanged, exactly when the \<^verbatim>\<open>context\<close> parameter is absent or is a value
  Python counts as false (null, false, zero, the empty string, the empty array, the
  empty object); for every other value it is answered with the generated identifier
  (\<^verbatim>\<open>ctx_\<close> and the first eight characters of the UUID drawn), that identifier is
  appended to the user's order, and the entries hold the value, unmodified, under it.
\<close>

theorem push_context_accepts:
  assumes "reachable s" and "user \<noteq> []"
    and "function_name r = ''push_context''" and "body r = Decoded (JObj ps)"
    and "dict_get ps ''user_id'' = JStr user"
  shows "(\<not> truthy (dict_get ps ''context'')) =
           (dict_get ps ''context'' = JNull \<or> dict_get ps ''context'' = JBool False
            \<or> dict_get ps ''context'' = JInt 0 \<or> dict_get ps ''context'' = JStr []
            \<or> dict_get ps ''context'' = JArr [] \<or> dict_get ps ''context'' = JObj [])
       \<and> (\<not> truthy (dict_get ps ''context'') \<longrightarrow>
            handle_mcp_request s r = (Error (Text ''context parameter is required''), s))
       \<and> (truthy (dict_get ps ''context'') \<longrightarrow>
            fst (handle_mcp_request s r) = Pushed (new_context_id (uuid4 r))
            \<and> user_order (snd (handle_mcp_request s r)) (KStr user)
                = user_order s (KStr user) @ [new_context_id (uuid4 r)]
            \<and> user_entries (snd (handle_mcp_request s r)) (KStr user)
                = (user_entries s (KStr user))(new_context_id (uuid4 r) \<mapsto> dict_get ps ''context''))"
proof (intro conjI impI)
  show "(\<not> truthy (dict_get ps ''context'')) =
           (dict_get ps ''context'' = JNull \<or> dict_get ps ''context'' = JBool False
            \<or> dict_get ps ''context'' = JInt 0 \<or> dict_get ps ''context'' = JStr []
            \<or> dict_get ps ''context'' = JArr [] \<or> dict_get ps ''context'' = JObj [])"
    by (rule falsy_values)
next
  assume "\<not> truthy (dict_get ps ''context'')"
  with assms show "handle_mcp_request s r = (Error (Text ''context parameter is required''), s)"
    by (simp add: handle_push_rejected)
next
  assume t: "truthy (dict_get ps ''context'')"
  note p = handle_push [OF reachable_same_users [OF assms(1)] assms(3-5) assms(2) t]
  show "fst (handle_mcp_request s r) = Pushed (new_context_id (uuid4 r))"
    by (simp add: p)
  show "user_order (snd (handle_mcp_request s r)) (KStr user)
      = user_order s (KStr user) @ [new_context_id (uuid4 r)]"
    by (simp add: p) (simp add: user_order_def)
  show "user_entries (snd (handle_mcp_request s r)) (KStr user)
      = (user_entries s (KStr user))(new_context_id (uuid4 r) \<mapsto> dict_get ps ''context'')"
    by (simp add: p) (simp add: user_entries_def)
qed

theorem push_context_accepts_witness:
  "handle_mcp_request empty_store
      \<lparr>function_name = ''push_context'', body = Decoded (JObj [(''user_id'', JStr ''u1'')]), uuid4 = []\<rparr>
     = (Error (Text ''context parameter is required''), empty_store)
   \<and> fst (handle_mcp_request empty_store
        (push_request ''u1'' (JInt 7) ''3f2a1b4c-5d6e-4f70-8a9b-0c1d2e3f4a5b''))
     = Pushed ''ctx_3f2a1b4c''
   \<and> user_order (snd (handle_mcp_request empty_store
        (push_request ''u1'' (JInt 7) ''3f2a1b4c-5d6e-4f70-8a9b-0c1d2e3f4a5b''))) (KStr ''u1'')
     = [''ctx_3f2a1b4c'']
   \<and> user_entries (snd (handle_mcp_request empty_store
        (push_request ''u1'' (JInt 7) ''3f2a1b4c-5d6e-4f70-8a9b-0c1d2e3f4a5b''))) (KStr ''u1'')
        ''ctx_3f2a1b4c''
     = Some (JInt 7)"
proof -
  let ?a = "\<lparr>function_name = ''push_context'', body = Decoded (JObj [(''user_id'', JStr ''u1'')]), uuid4 = []\<rparr>"
  let ?b = "push_request ''u1'' (JInt 7) ''3f2a1b4c-5d6e-4f70-8a9b-0c1d2e3f4a5b''"
  let ?ps = "[(''user_id'', JStr ''u1''), (''context'', JInt 7)]"
  have u: "''u1'' \<noteq> []" by simp
  have a: "function_name ?a = ''push_context''" "body ?a = Decoded (JObj [(''user_id'', JStr ''u1'')])"
      "dict_get [(''user_id'', JStr ''u1'')] ''user_id'' = JStr ''u1''"
    and na: "\<not> truthy (dict_get [(''user_id'', JStr ''u1'')] ''context'')"
    by (simp_all add: dict_get_def)
  have b: "function_name ?b = ''push_context''" "body ?b = Decoded (JObj ?ps)"
      "dict_get ?ps ''user_id'' = JStr ''u1''"
    and tb: "truthy (dict_get ?ps ''context'')" "dict_get ?ps ''context'' = JInt 7"
      "new_context_id (uuid4 ?b) = ''ctx_3f2a1b4c''"
    by (simp_all add: push_request_def dict_get_def new_context_id_def)
  have e: "user_order empty_store (KStr ''u1'') = []" "user_entries empty_store (KStr ''u1'') = Map.empty"
    by (simp_all add: user_order_def user_entries_def empty_store_def)
  from push_context_accepts [OF reachable.init u a] na
  have 1: "handle_mcp_request empty_store ?a = (Error (Text ''context parameter is required''), empty_store)"
    by blast
  from push_context_accepts [OF reachable.init u b] tb e
  have 2: "fst (handle_mcp_request empty_store ?b) = Pushed ''ctx_3f2a1b4c''"
    and 3: "user_order (snd (handle_mcp_request empty_store ?b)) (KStr ''u1'') = [''ctx_3f2a1b4c'']"
    and 4: "user_entries (snd (handle_mcp_request empty_store ?b)) (KStr ''u1'') ''ctx_3f2a1b4c'' = Some (JInt 7)"
    by simp_all
  from 1 2 3 4 show ?thesis by simp
qed

section \<open>Order and entries\<close>

lemma push_context_store:
  assumes "same_users s"
  shows "snd (push_context s p u4) = s
    \<or> (\<exists>ps u. p = JObj ps \<and> hash_key (dict_get ps ''user_id'') = Some u
         \<and> snd (push_context s p u4) =
           s\<lparr>contexts := (contexts s)(u \<mapsto>
                (user_entries s u)(new_context_id u4 \<mapsto> dict_get ps ''context'')),
             context_stacks := (context_stacks s)(u \<mapsto> user_order s u @ [new_context_id u4])\<rparr>)"
proof (cases p)
  case (JObj ps)
  show ?thesis
  proof (cases "truthy (dict_get ps ''user_id'') \<and> truthy (dict_get ps ''context'')")
    case True
    show ?thesis
    proof (cases "hash_key (dict_get ps ''user_id'')")
      case None
      with JObj True show ?thesis by (simp add: push_context_def Let_def)
    next
      case (Some u)
      with JObj True assms show ?thesis by (simp add: push_context_ok)
    qed
  next
    case False
    with JObj show ?thesis by (auto simp: push_context_def Let_def)
  qed
qed (simp_all add: push_context_def)

lemma pop_context_store:
  assumes "same_users s"
  shows "snd (pop_context s p) = s
    \<or> (\<exists>u. user_order s u \<noteq> []
         \<and> snd (pop_context s p) =
           s\<lparr>context_stacks := (context_stacks s)(u \<mapsto> butlast (user_order s u)),
             contexts := (contexts s)(u \<mapsto> (user_entries s u)(last (user_order s u) := None))\<rparr>)"
proof (cases p)
  case (JObj ps)
  show ?thesis
  proof (cases "truthy (dict_get ps ''user_id'')")
    case True
    show ?thesis
    proof (cases "hash_key (dict_get ps ''user_id'')")
      case None
      with JObj True show ?thesis by (simp add: pop_context_def Let_def)
    next
      case (Some u)
      show ?thesis
      proof (cases "user_order s u = []")
        case True
        with JObj \<open>truthy (dict_get ps ''user_id'')\<close> Some show ?thesis
          by (simp add: pop_context_empty)
      next
        case False
        then obtain st where st: "context_stacks s u = Some st" "st \<noteq> []"
          by (auto simp: user_order_def split: option.splits)
        with assms obtain d where d: "contexts s u = Some d" using same_users_dict by blast
        from st d have "user_order s u = st" "user_entries s u = d"
          by (simp_all add: user_order_def user_entries_def)
        with st d JObj \<open>truthy (dict_get ps ''user_id'')\<close> Some False show ?thesis
          by (auto simp: pop_context_ok)
      qed
    qed
  next
    case False
    with JObj show ?thesis by (simp add: pop_context_def Let_def)
  qed
qed (simp_all add: pop_context_def)

lemma clear_contexts_store:
  "snd (clear_contexts s p) = s
    \<or> (\<exists>u. snd (clear_contexts s p) =
           s\<lparr>contexts := (contexts s)(u \<mapsto> Map.empty),
             context_stacks := (context_stacks s)(u \<mapsto> [])\<rparr>)"
  unfolding clear_contexts_def
  by (auto simp: Let_def split: json.splits option.splits)

lemma set_butlast_distinct:
  assumes "distinct xs" and "xs \<noteq> []"
  shows "set (butlast xs) = set xs - {last xs}"
proof -
  from assms(2) have "xs = butlast xs @ [last xs]" by simp
  with assms(1) have "distinct (butlast xs @ [last xs])" by simp
  then have "last xs \<notin> set (butlast xs)" by simp
  moreover from \<open>xs = butlast xs @ [last xs]\<close> have "set xs = set (butlast xs) \<union> {last xs}"
    by (metis set_append list.set(1) list.set(2))
  ultimately show ?thesis by auto
qed

lemma stacks_match_pushed:
  assumes "stacks_match s" and "i \<notin> set (user_order s u)"
  shows "stacks_match
    (s\<lparr>contexts := (contexts s)(u \<mapsto> (user_entries s u)(i \<mapsto> c)),
       context_stacks := (context_stacks s)(u \<mapsto> user_order s u @ [i])\<rparr>)"
  using assms unfolding stacks_match_def
  by (auto simp: user_order_def user_entries_def)

lemma stacks_match_popped:
  assumes "stacks_match s" and "user_order s u \<noteq> []"
  shows "stacks_match
    (s\<lparr>context_stacks := (context_stacks s)(u \<mapsto> butlast (user_order s u)),
       contexts := (contexts s)(u \<mapsto> (user_entries s u)(last (user_order s u) := None))\<rparr>)"
proof -
  from assms(1) have d: "distinct (user_order s u)" "set (user_order s u) = dom (user_entries s u)"
    by (simp_all add: stacks_match_def)
  from d(1) have "distinct (butlast (user_order s u))" by (rule distinct_butlast)
  moreover from d assms(2)
  have "set (butlast (user_order s u)) = dom ((user_entries s u)(last (user_order s u) := None))"
    by (simp add: set_butlast_distinct)
  ultimately show ?thesis
    using assms(1) unfolding stacks_match_def
    by (auto simp: user_order_def user_entries_def)
qed

lemma stacks_match_cleared:
  assumes "stacks_match s"
  shows "stacks_match
    (s\<lparr>contexts := (contexts s)(u \<mapsto> Map.empty), context_stacks := (context_stacks s)(u \<mapsto> [])\<rparr>)"
  using assms unfolding stacks_match_def
  by (auto simp: user_order_def user_entries_def)


lemma dispatch_no_parameters: "snd (dispatch s fn (JObj []) u4) = s"
proof (cases "fn \<in> set recognized")
  case True
  then show ?thesis by (simp add: dispatch_user_id_missing dict_get_def)
next
  case False
  then show ?thesis by (simp add: dispatch_unsupported)
qed

lemma stacks_match_push:
  assumes "same_users s" and "stacks_match s"
    and "function_name r = ''push_context''" and "body r = Decoded p" and "fresh_draw s r"
  shows "stacks_match (snd (push_context s p (uuid4 r)))"
proof -
  from push_context_store [OF assms(1), of p "uuid4 r"]
  show ?thesis
  proof
    assume "snd (push_context s p (uuid4 r)) = s"
    with assms(2) show ?thesis by simp
  next
    assume "\<exists>ps u. p = JObj ps \<and> hash_key (dict_get ps ''user_id'') = Some u
         \<and> snd (push_context s p (uuid4 r)) =
           s\<lparr>contexts := (contexts s)(u \<mapsto>
                (user_entries s u)(new_context_id (uuid4 r) \<mapsto> dict_get ps ''context'')),
             context_stacks := (context_stacks s)(u \<mapsto> user_order s u @ [new_context_id (uuid4 r)])\<rparr>"
    then obtain ps u where p: "p = JObj ps" "hash_key (dict_get ps ''user_id'') = Some u"
      and e: "snd (push_context s p (uuid4 r)) =
           s\<lparr>contexts := (contexts s)(u \<mapsto>
                (user_entries s u)(new_context_id (uuid4 r) \<mapsto> dict_get ps ''context'')),
             context_stacks := (context_stacks s)(u \<mapsto> user_order s u @ [new_context_id (uuid4 r)])\<rparr>"
      by blast
    from p assms(4) have "request_user r = Some u" by (simp add: request_user_def)
    with assms(3,5) have "new_context_id (uuid4 r) \<notin> set (user_order s u)"
      by (simp add: fresh_draw_def)
    with assms(2) e show ?thesis by (simp add: stacks_match_pushed)
  qed
qed

lemma stacks_match_pop:
  assumes "same_users s" and "stacks_match s"
  shows "stacks_match (snd (pop_context s p))"
  using pop_context_store [OF assms(1), of p] assms(2)
  by (auto simp: stacks_match_popped)

lemma stacks_match_clear:
  assumes "stacks_match s"
  shows "stacks_match (snd (clear_contexts s p))"
  using clear_contexts_store [of s p] assms
  by (auto simp: stacks_match_cleared)

lemma stacks_match_step:
  assumes "same_users s" and "stacks_match s" and "fresh_draw s r"
  shows "stacks_match (snd (handle_mcp_request s r))"
proof (cases "body r")
  case EmptyBody
  with assms(2) show ?thesis by (simp add: handle_store dispatch_no_parameters)
next
  case Malformed
  with assms(2) show ?thesis by (simp add: handle_store)
next
  case (Decoded p)
  have "stacks_match (snd (dispatch s (function_name r) p (uuid4 r)))"
    unfolding dispatch_def
    using assms Decoded
    by (simp add: stacks_match_push stacks_match_pop stacks_match_clear
        list_contexts_store get_context_store)
  with Decoded show ?thesis by (simp add: handle_store)
qed

lemma reachable_fresh_reachable: "reachable_fresh s \<Longrightarrow> reachable s"
  by (induction rule: reachable_fresh.induct) (auto intro: reachable.intros)

lemma reachable_fresh_stacks_match: "reachable_fresh s \<Longrightarrow> stacks_match s"
proof (induction rule: reachable_fresh.induct)
  case init_fresh
  show ?case by (simp add: stacks_match_def user_order_def user_entries_def empty_store_def)
next
  case (step_fresh s r)
  then show ?case
    by (simp add: stacks_match_step reachable_same_users reachable_fresh_reachable)
qed

lemma snd_run_Cons: "snd (run s (r # rs)) = snd (run (snd (handle_mcp_request s r)) rs)"
  by (simp split: prod.splits)

lemma fst_run_Cons:
  "fst (run s (r # rs)) = (r, fst (handle_mcp_request s r)) # fst (run (snd (handle_mcp_request s r)) rs)"
  by (simp split: prod.splits)

lemma reachable_run: "reachable s \<Longrightarrow> reachable (snd (run s rs))"
proof (induction rs arbitrary: s)
  case Nil
  then show ?case by simp
next
  case (Cons r rs)
  from Cons.prems have "reachable (snd (handle_mcp_request s r))" by (rule reachable.step)
  then have "reachable (snd (run (snd (handle_mcp_request s r)) rs))" by (rule Cons.IH)
  then show ?case by (simp only: snd_run_Cons)
qed

lemmas request_defs = push_request_def user_request_def get_request_def
lemmas handler_defs = handle_mcp_request_def dispatch_def push_context_def pop_context_def
  list_contexts_def get_context_def clear_contexts_def dict_get_def new_context_id_def
  inner_get_def empty_store_def Let_def

lemma colliding_pushes:
  "snd (run empty_store
     [push_request ''u1'' (JStr ''a'') ''3f2a1b4c-5d6e-4f70-8a9b-0c1d2e3f4a5b'',
      push_request ''u1'' (JStr ''b'') ''3f2a1b4c-aaaa-4bbb-8ccc-dddddddddddd''])
   = \<lparr>contexts = [KStr ''u1'' \<mapsto> [''ctx_3f2a1b4c'' \<mapsto> JStr ''b'']],
      context_stacks = [KStr ''u1'' \<mapsto> [''ctx_3f2a1b4c'', ''ctx_3f2a1b4c'']]\<rparr>"
  by (simp add: request_defs handler_defs)

lemma colliding_pushes_pop:
  "snd (run empty_store
     [push_request ''u1'' (JStr ''a'') ''3f2a1b4c-5d6e-4f70-8a9b-0c1d2e3f4a5b'',
      push_request ''u1'' (JStr ''b'') ''3f2a1b4c-aaaa-4bbb-8ccc-dddddddddddd'',
      user_request ''pop_context'' ''u1''])
   = \<lparr>contexts = [KStr ''u1'' \<mapsto> Map.empty],
      context_stacks = [KStr ''u1'' \<mapsto> [''ctx_3f2a1b4c'']]\<rparr>"
  by (simp add: request_defs handler_defs)


text \<open>
  C1, as the claim states it, fails. The identifier of a push is \<^verbatim>\<open>ctx_\<close> and the
  first eight characters of a random UUID, and the handler does not look whether the
  user already has it. Two pushes of one user whose UUIDs share their first eight
  characters leave the identifier twice in the order, and the pop that follows leaves
  it in the order while the entries no longer hold it.
\<close>

theorem colliding_pushes_break_order:
  "reachable (snd (run empty_store
     [push_request ''u1'' (JStr ''a'') ''3f2a1b4c-5d6e-4f70-8a9b-0c1d2e3f4a5b'',
      push_request ''u1'' (JStr ''b'') ''3f2a1b4c-aaaa-4bbb-8ccc-dddddddddddd'']))
   \<and> \<not> distinct (user_order (snd (run empty_store
     [push_request ''u1'' (JStr ''a'') ''3f2a1b4c-5d6e-4f70-8a9b-0c1d2e3f4a5b'',
      push_request ''u1'' (JStr ''b'') ''3f2a1b4c-aaaa-4bbb-8ccc-dddddddddddd''])) (KStr ''u1''))
   \<and> reachable (snd (run empty_store
     [push_request ''u1'' (JStr ''a'') ''3f2a1b4c-5d6e-4f70-8a9b-0c1d2e3f4a5b'',
      push_request ''u1'' (JStr ''b'') ''3f2a1b4c-aaaa-4bbb-8ccc-dddddddddddd'',
      user_request ''pop_context'' ''u1'']))
   \<and> set (user_order (snd (run empty_store
     [push_request ''u1'' (JStr ''a'') ''3f2a1b4c-5d6e-4f70-8a9b-0c1d2e3f4a5b'',
      push_request ''u1'' (JStr ''b'') ''3f2a1b4c-aaaa-4bbb-8ccc-dddddddddddd'',
      user_request ''pop_context'' ''u1''])) (KStr ''u1''))
     \<noteq> dom (user_entries (snd (run empty_store
     [push_request ''u1'' (JStr ''a'') ''3f2a1b4c-5d6e-4f70-8a9b-0c1d2e3f4a5b'',
      push_request ''u1'' (JStr ''b'') ''3f2a1b4c-aaaa-4bbb-8ccc-dddddddddddd'',
      user_request ''pop_context'' ''u1''])) (KStr ''u1''))"
proof (intro conjI)
  show "\<not> distinct (user_order (snd (run empty_store
     [push_request ''u1'' (JStr ''a'') ''3f2a1b4c-5d6e-4f70-8a9b-0c1d2e3f4a5b'',
      push_request ''u1'' (JStr ''b'') ''3f2a1b4c-aaaa-4bbb-8ccc-dddddddddddd''])) (KStr ''u1''))"
    unfolding colliding_pushes by (simp add: user_order_def)
  show "set (user_order (snd (run empty_store
     [push_request ''u1'' (JStr ''a'') ''3f2a1b4c-5d6e-4f70-8a9b-0c1d2e3f4a5b'',
      push_request ''u1'' (JStr ''b'') ''3f2a1b4c-aaaa-4bbb-8ccc-dddddddddddd'',
      user_request ''pop_context'' ''u1''])) (KStr ''u1''))
     \<noteq> dom (user_entries (snd (run empty_store
     [push_request ''u1'' (JStr ''a'') ''3f2a1b4c-5d6e-4f70-8a9b-0c1d2e3f4a5b'',
      push_request ''u1'' (JStr ''b'') ''3f2a1b4c-aaaa-4bbb-8ccc-dddddddddddd'',
      user_request ''pop_context'' ''u1''])) (KStr ''u1''))"
    unfolding colliding_pushes_pop by (simp add: user_order_def user_entries_def)
qed (rule reachable_run [OF reachable.init])+

text \<open>
  C1, amended. In every store reachable from the empty store a user is a key of
  \<^verbatim>\<open>contexts\<close> if and only if it is a key of \<^verbatim>\<open>context_stacks\<close>. In every store
  reachable through requests in which each push generates an identifier that is not
  in the order of its user at that moment, the order of every user has no duplicates
  and its elements are exactly the keys of the user's entries.
\<close>

theorem order_matches_entries:
  "(reachable s \<longrightarrow> (u \<in> dom (contexts s)) = (u \<in> dom (context_stacks s)))
   \<and> (reachable_fresh s \<longrightarrow>
        distinct (user_order s u) \<and> set (user_order s u) = dom (user_entries s u))"
proof (intro conjI impI)
  assume "reachable s"
  then have "same_users s" by (rule reachable_same_users)
  then have "(contexts s u = None) = (context_stacks s u = None)" by (simp add: same_users_def)
  then show "(u \<in> dom (contexts s)) = (u \<in> dom (context_stacks s))" by (auto simp: dom_def)
next
  assume "reachable_fresh s"
  then have m: "stacks_match s" by (rule reachable_fresh_stacks_match)
  from m show "distinct (user_order s u)" by (simp add: stacks_match_def)
  from m show "set (user_order s u) = dom (user_entries s u)" by (simp add: stacks_match_def)
qed

lemma two_pushes:
  "handle_mcp_request
     (snd (handle_mcp_request empty_store
        (push_request ''u1'' (JStr ''a'') ''3f2a1b4c-5d6e-4f70-8a9b-0c1d2e3f4a5b'')))
     (push_request ''u1'' (JStr ''b'') ''9e8d7c6b-aaaa-4bbb-8ccc-dddddddddddd'')
   = (Pushed ''ctx_9e8d7c6b'',
      \<lparr>contexts = [KStr ''u1'' \<mapsto> [''ctx_3f2a1b4c'' \<mapsto> JStr ''a'', ''ctx_9e8d7c6b'' \<mapsto> JStr ''b'']],
       context_stacks = [KStr ''u1'' \<mapsto> [''ctx_3f2a1b4c'', ''ctx_9e8d7c6b'']]\<rparr>)"
  by (simp add: request_defs handler_defs)

lemma two_pushes_fresh:
  "reachable_fresh (snd (handle_mcp_request
     (snd (handle_mcp_request empty_store
        (push_request ''u1'' (JStr ''a'') ''3f2a1b4c-5d6e-4f70-8a9b-0c1d2e3f4a5b'')))
     (push_request ''u1'' (JStr ''b'') ''9e8d7c6b-aaaa-4bbb-8ccc-dddddddddddd'')))"
proof -
  have "fresh_draw empty_store
      (push_request ''u1'' (JStr ''a'') ''3f2a1b4c-5d6e-4f70-8a9b-0c1d2e3f4a5b'')"
    by (simp add: fresh_draw_def request_user_def push_request_def dict_get_def user_order_def
        empty_store_def)
  with reachable_fresh.init_fresh
  have 1: "reachable_fresh (snd (handle_mcp_request empty_store
      (push_request ''u1'' (JStr ''a'') ''3f2a1b4c-5d6e-4f70-8a9b-0c1d2e3f4a5b'')))"
    by (rule reachable_fresh.step_fresh)
  have "fresh_draw (snd (handle_mcp_request empty_store
        (push_request ''u1'' (JStr ''a'') ''3f2a1b4c-5d6e-4f70-8a9b-0c1d2e3f4a5b'')))
      (push_request ''u1'' (JStr ''b'') ''9e8d7c6b-aaaa-4bbb-8ccc-dddddddddddd'')"
    unfolding one_push
    by (simp add: fresh_draw_def request_user_def push_request_def dict_get_def user_order_def
        new_context_id_def)
  with 1 show ?thesis by (rule reachable_fresh.step_fresh)
qed

theorem order_matches_entries_witness:
  "user_order (snd (handle_mcp_request
     (snd (handle_mcp_request empty_store
        (push_request ''u1'' (JStr ''a'') ''3f2a1b4c-5d6e-4f70-8a9b-0c1d2e3f4a5b'')))
     (push_request ''u1'' (JStr ''b'') ''9e8d7c6b-aaaa-4bbb-8ccc-dddddddddddd''))) (KStr ''u1'')
     = [''ctx_3f2a1b4c'', ''ctx_9e8d7c6b'']
   \<and> dom (user_entries (snd (handle_mcp_request
     (snd (handle_mcp_request empty_store
        (push_request ''u1'' (JStr ''a'') ''3f2a1b4c-5d6e-4f70-8a9b-0c1d2e3f4a5b'')))
     (push_request ''u1'' (JStr ''b'') ''9e8d7c6b-aaaa-4bbb-8ccc-dddddddddddd''))) (KStr ''u1''))
     = {''ctx_3f2a1b4c'', ''ctx_9e8d7c6b''}
   \<and> KStr ''u1'' \<in> dom (contexts (snd (handle_mcp_request
     (snd (handle_mcp_request empty_store
        (push_request ''u1'' (JStr ''a'') ''3f2a1b4c-5d6e-4f70-8a9b-0c1d2e3f4a5b'')))
     (push_request ''u1'' (JStr ''b'') ''9e8d7c6b-aaaa-4bbb-8ccc-dddddddddddd''))))"
proof -
  let ?T = "snd (handle_mcp_request
     (snd (handle_mcp_request empty_store
        (push_request ''u1'' (JStr ''a'') ''3f2a1b4c-5d6e-4f70-8a9b-0c1d2e3f4a5b'')))
     (push_request ''u1'' (JStr ''b'') ''9e8d7c6b-aaaa-4bbb-8ccc-dddddddddddd''))"
  have f: "reachable_fresh ?T" by (rule two_pushes_fresh)
  then have r: "reachable ?T" by (rule reachable_fresh_reachable)
  have o: "user_order ?T (KStr ''u1'') = [''ctx_3f2a1b4c'', ''ctx_9e8d7c6b'']"
    and k: "KStr ''u1'' \<in> dom (context_stacks ?T)"
    by (simp_all add: two_pushes user_order_def)
  from order_matches_entries [of ?T "KStr ''u1''"] f r o k show ?thesis by auto
qed

section \<open>Pop and get\<close>

text \<open>
  C5, as the claim states it, fails. After two pushes of one user whose UUIDs share
  their first eight characters and one pop, the user has no entries, yet the next pop
  does not fail: it is answered with the identifier left in the order and with null
  in place of a value.
\<close>

theorem pop_without_entries_succeeds:
  "reachable (snd (run empty_store
     [push_request ''u1'' (JStr ''a'') ''3f2a1b4c-5d6e-4f70-8a9b-0c1d2e3f4a5b'',
      push_request ''u1'' (JStr ''b'') ''3f2a1b4c-aaaa-4bbb-8ccc-dddddddddddd'',
      user_request ''pop_context'' ''u1'']))
   \<and> user_entries (snd (run empty_store
     [push_request ''u1'' (JStr ''a'') ''3f2a1b4c-5d6e-4f70-8a9b-0c1d2e3f4a5b'',
      push_request ''u1'' (JStr ''b'') ''3f2a1b4c-aaaa-4bbb-8ccc-dddddddddddd'',
      user_request ''pop_context'' ''u1''])) (KStr ''u1'') = Map.empty
   \<and> fst (handle_mcp_request (snd (run empty_store
     [push_request ''u1'' (JStr ''a'') ''3f2a1b4c-5d6e-4f70-8a9b-0c1d2e3f4a5b'',
      push_request ''u1'' (JStr ''b'') ''3f2a1b4c-aaaa-4bbb-8ccc-dddddddddddd'',
      user_request ''pop_context'' ''u1''])) (user_request ''pop_context'' ''u1''))
     = Popped ''ctx_3f2a1b4c'' JNull"
proof (intro conjI)
  show "reachable (snd (run empty_store
     [push_request ''u1'' (JStr ''a'') ''3f2a1b4c-5d6e-4f70-8a9b-0c1d2e3f4a5b'',
      push_request ''u1'' (JStr ''b'') ''3f2a1b4c-aaaa-4bbb-8ccc-dddddddddddd'',
      user_request ''pop_context'' ''u1'']))"
    by (rule reachable_run [OF reachable.init])
  show "user_entries (snd (run empty_store
     [push_request ''u1'' (JStr ''a'') ''3f2a1b4c-5d6e-4f70-8a9b-0c1d2e3f4a5b'',
      push_request ''u1'' (JStr ''b'') ''3f2a1b4c-aaaa-4bbb-8ccc-dddddddddddd'',
      user_request ''pop_context'' ''u1''])) (KStr ''u1'') = Map.empty"
    unfolding colliding_pushes_pop by (simp add: user_entries_def)
  show "fst (handle_mcp_request (snd (run empty_store
     [push_request ''u1'' (JStr ''a'') ''3f2a1b4c-5d6e-4f70-8a9b-0c1d2e3f4a5b'',
      push_request ''u1'' (JStr ''b'') ''3f2a1b4c-aaaa-4bbb-8ccc-dddddddddddd'',
      user_request ''pop_context'' ''u1''])) (user_request ''pop_context'' ''u1''))
     = Popped ''ctx_3f2a1b4c'' JNull"
    unfolding colliding_pushes_pop
    by (simp add: user_request_def handle_mcp_request_def dispatch_def pop_context_def
        dict_get_def inner_get_def Let_def)
qed

lemma stacks_match_no_entries:
  assumes "stacks_match s"
  shows "(user_entries s u = Map.empty) = (user_order s u = [])"
proof -
  from assms have "set (user_order s u) = dom (user_entries s u)" by (simp add: stacks_match_def)
  then show ?thesis by (metis dom_eq_empty_conv set_empty)
qed

lemma stacks_match_top:
  assumes "stacks_match s" and "user_order s u \<noteq> []"
  shows "\<exists>v. user_entries s u (last (user_order s u)) = Some v"
proof -
  from assms(1) have "set (user_order s u) = dom (user_entries s u)" by (simp add: stacks_match_def)
  moreover from assms(2) have "last (user_order s u) \<in> set (user_order s u)" by simp
  ultimately show ?thesis by auto
qed

text \<open>
  C5, amended. For a non-empty string \<^verbatim>\<open>user_id\<close>, in every store reachable through
  requests in which each push generates an identifier that is not in the order of its
  user at that moment: a pop fails with \<^verbatim>\<open>No contexts to pop\<close>, the store unchanged,
  exactly when the user has no entries, a user never seen and a user whose stack was
  emptied alike; otherwise it is answered with the last identifier of the order and
  the value stored for it, and removes that identifier from the end of the order and
  from the entries. In every store whatever, a get for a non-empty string
  \<^verbatim>\<open>context_id\<close> fails with the not-found failure, the store unchanged, exactly when
  the user's entries (none for an unknown user) do not hold the identifier, and is
  otherwise answered with the value stored for it.
\<close>

theorem pop_top_and_get:
  assumes "user \<noteq> []"
    and "function_name r = ''pop_context''" and "body r = Decoded (JObj ps)"
    and "dict_get ps ''user_id'' = JStr user"
    and "function_name g = ''get_context''" and "body g = Decoded (JObj qs)"
    and "dict_get qs ''user_id'' = JStr user"
    and "dict_get qs ''context_id'' = JStr c" and "c \<noteq> []"
  shows "(reachable_fresh s \<longrightarrow>
            (user_entries s (KStr user) = Map.empty \<longrightarrow>
               handle_mcp_request s r = (Failure (Text ''No contexts to pop''), s))
          \<and> (user_entries s (KStr user) \<noteq> Map.empty \<longrightarrow>
               (\<exists>v. user_entries s (KStr user) (last (user_order s (KStr user))) = Some v
                  \<and> fst (handle_mcp_request s r) = Popped (last (user_order s (KStr user))) v)
               \<and> user_order (snd (handle_mcp_request s r)) (KStr user)
                   = butlast (user_order s (KStr user))
               \<and> user_entries (snd (handle_mcp_request s r)) (KStr user)
                   = (user_entries s (KStr user))(last (user_order s (KStr user)) := None)))
       \<and> (user_entries s (KStr user) c = None \<longrightarrow>
            handle_mcp_request s g = (Failure (NotFoundText (JStr c) (JStr user)), s))
       \<and> (\<forall>v. user_entries s (KStr user) c = Some v \<longrightarrow>
            handle_mcp_request s g = (Got c v, s))"
proof (intro conjI impI allI)
  assume f: "reachable_fresh s" and e: "user_entries s (KStr user) = Map.empty"
  from f have "stacks_match s" by (rule reachable_fresh_stacks_match)
  with e have "user_order s (KStr user) = []" by (simp add: stacks_match_no_entries)
  with assms show "handle_mcp_request s r = (Failure (Text ''No contexts to pop''), s)"
    by (simp add: handle_pop_empty)
next
  assume f: "reachable_fresh s" and e: "user_entries s (KStr user) \<noteq> Map.empty"
  from f have m: "stacks_match s" by (rule reachable_fresh_stacks_match)
  from f have su: "same_users s" by (simp add: reachable_same_users reachable_fresh_reachable)
  from m e have n: "user_order s (KStr user) \<noteq> []" by (simp add: stacks_match_no_entries)
  note p = handle_pop [OF su assms(2-4) assms(1) n]
  from stacks_match_top [OF m n]
  obtain v where v: "user_entries s (KStr user) (last (user_order s (KStr user))) = Some v" ..
  then have "fst (handle_mcp_request s r) = Popped (last (user_order s (KStr user))) v"
    by (simp add: p inner_get_def)
  with v show "\<exists>v. user_entries s (KStr user) (last (user_order s (KStr user))) = Some v
      \<and> fst (handle_mcp_request s r) = Popped (last (user_order s (KStr user))) v"
    by blast
  show "user_order (snd (handle_mcp_request s r)) (KStr user) = butlast (user_order s (KStr user))"
    by (simp add: p) (simp add: user_order_def)
  show "user_entries (snd (handle_mcp_request s r)) (KStr user)
      = (user_entries s (KStr user))(last (user_order s (KStr user)) := None)"
    by (simp add: p) (simp add: user_entries_def)
next
  assume "user_entries s (KStr user) c = None"
  with assms show "handle_mcp_request s g = (Failure (NotFoundText (JStr c) (JStr user)), s)"
    by (simp add: handle_get)
next
  fix v assume "user_entries s (KStr user) c = Some v"
  with assms show "handle_mcp_request s g = (Got c v, s)"
    by (simp add: handle_get)
qed

lemma one_push_fresh:
  "reachable_fresh (snd (handle_mcp_request empty_store
      (push_request ''u1'' (JStr ''a'') ''3f2a1b4c-5d6e-4f70-8a9b-0c1d2e3f4a5b'')))"
proof -
  have "fresh_draw empty_store
      (push_request ''u1'' (JStr ''a'') ''3f2a1b4c-5d6e-4f70-8a9b-0c1d2e3f4a5b'')"
    by (simp add: fresh_draw_def request_user_def push_request_def dict_get_def user_order_def
        empty_store_def)
  with reachable_fresh.init_fresh show ?thesis by (rule reachable_fresh.step_fresh)
qed

theorem pop_top_and_get_witness:
  "handle_mcp_request empty_store (user_request ''pop_context'' ''u1'')
     = (Failure (Text ''No contexts to pop''), empty_store)
   \<and> handle_mcp_request empty_store (get_request ''u1'' ''ctx_3f2a1b4c'')
     = (Failure (NotFoundText (JStr ''ctx_3f2a1b4c'') (JStr ''u1'')), empty_store)
   \<and> fst (handle_mcp_request
        (snd (handle_mcp_request empty_store
          (push_request ''u1'' (JStr ''a'') ''3f2a1b4c-5d6e-4f70-8a9b-0c1d2e3f4a5b'')))
        (user_request ''pop_context'' ''u1''))
     = Popped ''ctx_3f2a1b4c'' (JStr ''a'')
   \<and> user_order (snd (handle_mcp_request
        (snd (handle_mcp_request empty_store
          (push_request ''u1'' (JStr ''a'') ''3f2a1b4c-5d6e-4f70-8a9b-0c1d2e3f4a5b'')))
        (user_request ''pop_context'' ''u1''))) (KStr ''u1'') = []
   \<and> user_entries (snd (handle_mcp_request
        (snd (handle_mcp_request empty_store
          (push_request ''u1'' (JStr ''a'') ''3f2a1b4c-5d6e-4f70-8a9b-0c1d2e3f4a5b'')))
        (user_request ''pop_context'' ''u1''))) (KStr ''u1'') = Map.empty
   \<and> fst (handle_mcp_request
        (snd (handle_mcp_request empty_store
          (push_request ''u1'' (JStr ''a'') ''3f2a1b4c-5d6e-4f70-8a9b-0c1d2e3f4a5b'')))
        (get_request ''u1'' ''ctx_3f2a1b4c''))
     = Got ''ctx_3f2a1b4c'' (JStr ''a'')"
proof -
  let ?S = "snd (handle_mcp_request empty_store
      (push_request ''u1'' (JStr ''a'') ''3f2a1b4c-5d6e-4f70-8a9b-0c1d2e3f4a5b''))"
  let ?p = "user_request ''pop_context'' ''u1''"
  let ?g = "get_request ''u1'' ''ctx_3f2a1b4c''"
  have f: "reachable_fresh ?S" by (rule one_push_fresh)
  have u: "''u1'' \<noteq> []" by simp
  have p: "function_name ?p = ''pop_context''" "body ?p = Decoded (JObj [(''user_id'', JStr ''u1'')])"
      "dict_get [(''user_id'', JStr ''u1'')] ''user_id'' = JStr ''u1''"
    by (simp_all add: user_request_def dict_get_def)
  have g: "function_name ?g = ''get_context''"
      "body ?g = Decoded (JObj [(''user_id'', JStr ''u1''), (''context_id'', JStr ''ctx_3f2a1b4c'')])"
      "dict_get [(''user_id'', JStr ''u1''), (''context_id'', JStr ''ctx_3f2a1b4c'')] ''user_id'' = JStr ''u1''"
      "dict_get [(''user_id'', JStr ''u1''), (''context_id'', JStr ''ctx_3f2a1b4c'')] ''context_id''
        = JStr ''ctx_3f2a1b4c''"
      "''ctx_3f2a1b4c'' \<noteq> []"
    by (simp_all add: get_request_def dict_get_def)
  have e: "user_entries empty_store (KStr ''u1'') = Map.empty"
    by (simp add: user_entries_def empty_store_def)
  have s: "user_order ?S (KStr ''u1'') = [''ctx_3f2a1b4c'']"
      "user_entries ?S (KStr ''u1'') = [''ctx_3f2a1b4c'' \<mapsto> JStr ''a'']"
    by (simp_all add: one_push user_order_def user_entries_def)
  have ne: "user_entries ?S (KStr ''u1'') \<noteq> Map.empty"
    unfolding s by (metis fun_upd_same option.distinct(1))
  from pop_top_and_get [OF u p g, of empty_store] reachable_fresh.init_fresh e
  have 1: "handle_mcp_request empty_store ?p = (Failure (Text ''No contexts to pop''), empty_store)"
    and 2: "handle_mcp_request empty_store ?g
      = (Failure (NotFoundText (JStr ''ctx_3f2a1b4c'') (JStr ''u1'')), empty_store)"
    by simp_all
  from pop_top_and_get [OF u p g, of ?S] f ne
  have t: "(\<exists>v. user_entries ?S (KStr ''u1'') (last (user_order ?S (KStr ''u1''))) = Some v
          \<and> fst (handle_mcp_request ?S ?p) = Popped (last (user_order ?S (KStr ''u1''))) v)"
    and 4: "user_order (snd (handle_mcp_request ?S ?p)) (KStr ''u1'')
        = butlast (user_order ?S (KStr ''u1''))"
    and 5: "user_entries (snd (handle_mcp_request ?S ?p)) (KStr ''u1'')
        = (user_entries ?S (KStr ''u1''))(last (user_order ?S (KStr ''u1'')) := None)"
    and 6: "\<forall>v. user_entries ?S (KStr ''u1'') ''ctx_3f2a1b4c'' = Some v \<longrightarrow>
        handle_mcp_request ?S ?g = (Got ''ctx_3f2a1b4c'' v, ?S)"
    by blast+
  from t have 3: "fst (handle_mcp_request ?S ?p) = Popped ''ctx_3f2a1b4c'' (JStr ''a'')"
    by (auto simp: s)
  from 4 have o: "user_order (snd (handle_mcp_request ?S ?p)) (KStr ''u1'') = []"
    by (simp add: s)
  from 5 have n: "user_entries (snd (handle_mcp_request ?S ?p)) (KStr ''u1'') = Map.empty"
    by (simp add: s)
  from 6 have k: "fst (handle_mcp_request ?S ?g) = Got ''ctx_3f2a1b4c'' (JStr ''a'')"
    by (simp add: s)
  from 1 2 3 o n k show ?thesis by simp
qed

section \<open>List after a sequence of pushes\<close>

lemma push_request_fields:
  "function_name (push_request user c u4) = ''push_context''"
  "body (push_request user c u4) = Decoded (JObj [(''user_id'', JStr user), (''context'', c)])"
  "uuid4 (push_request user c u4) = u4"
  "dict_get [(''user_id'', JStr user), (''context'', c)] ''user_id'' = JStr user"
  "dict_get [(''user_id'', JStr user), (''context'', c)] ''context'' = c"
  by (simp_all add: push_request_def dict_get_def)

lemma push_request_accepted:
  assumes "same_users s" and "user \<noteq> []" and "truthy c"
  shows "snd (handle_mcp_request s (push_request user c u4)) =
     s\<lparr>contexts := (contexts s)(KStr user \<mapsto>
         (user_entries s (KStr user))(new_context_id u4 \<mapsto> c)),
       context_stacks := (context_stacks s)(KStr user \<mapsto>
         user_order s (KStr user) @ [new_context_id u4])\<rparr>"
  using assms
    handle_push [where s = s and r = "push_request user c u4" and user = user
      and ps = "[(''user_id'', JStr user), (''context'', c)]"]
  by (simp add: push_request_fields)

lemma push_request_rejected:
  assumes "user \<noteq> []" and "\<not> truthy c"
  shows "snd (handle_mcp_request s (push_request user c u4)) = s"
  using assms
    handle_push_rejected [where s = s and r = "push_request user c u4" and user = user
      and ps = "[(''user_id'', JStr user), (''context'', c)]"]
  by (simp add: push_request_fields)

lemma listing_pushed:
  assumes "i \<notin> set (user_order s u)"
  shows "listing
    (s\<lparr>contexts := (contexts s)(u \<mapsto> (user_entries s u)(i \<mapsto> c)),
       context_stacks := (context_stacks s)(u \<mapsto> user_order s u @ [i])\<rparr>) u
    = listing s u @ [(i, c)]"
  using assms by (auto simp: listing_def user_order_def user_entries_def inner_get_def)

lemma listing_push_all:
  assumes "same_users s" and "user \<noteq> []"
    and "distinct (map (\<lambda>(c, u4). new_context_id u4) (accepted cs))"
    and "set (map (\<lambda>(c, u4). new_context_id u4) (accepted cs)) \<inter> set (user_order s (KStr user)) = {}"
  shows "same_users (push_all s user cs)
    \<and> listing (push_all s user cs) (KStr user)
        = listing s (KStr user) @ map (\<lambda>(c, u4). (new_context_id u4, c)) (accepted cs)"
  using assms
proof (induction cs arbitrary: s)
  case Nil
  then show ?case by (simp add: accepted_def)
next
  case (Cons p cs)
  obtain c u4 where p: "p = (c, u4)" by (cases p)
  let ?s' = "snd (handle_mcp_request s (push_request user c u4))"
  have su': "same_users ?s'" using Cons.prems(1) by (rule same_users_step)
  show ?case
  proof (cases "truthy c")
    case False
    with Cons.prems(2) have s': "?s' = s" by (simp add: push_request_rejected)
    from False p have a: "accepted (p # cs) = accepted cs" by (simp add: accepted_def)
    from Cons.IH [OF Cons.prems(1,2)] Cons.prems(3,4) a s' p show ?thesis by simp
  next
    case True
    let ?i = "new_context_id u4"
    from True p have a: "accepted (p # cs) = (c, u4) # accepted cs" by (simp add: accepted_def)
    note s' = push_request_accepted [OF Cons.prems(1,2) True, of u4]
    from Cons.prems(4) a have fresh: "?i \<notin> set (user_order s (KStr user))" by auto
    have o': "user_order ?s' (KStr user) = user_order s (KStr user) @ [?i]"
      by (simp add: s') (simp add: user_order_def)
    from Cons.prems(3) a have d: "distinct (map (\<lambda>(c, u4). new_context_id u4) (accepted cs))"
      and n: "?i \<notin> set (map (\<lambda>(c, u4). new_context_id u4) (accepted cs))"
      by simp_all
    from Cons.prems(4) a n o'
    have dj: "set (map (\<lambda>(c, u4). new_context_id u4) (accepted cs)) \<inter> set (user_order ?s' (KStr user)) = {}"
      by auto
    from fresh have l': "listing ?s' (KStr user) = listing s (KStr user) @ [(?i, c)]"
      by (simp add: s' listing_pushed)
    from Cons.IH [OF su' Cons.prems(2) d dj] l' a p show ?thesis by simp
  qed
qed


lemma colliding_pushes_all:
  "push_all empty_store ''u1''
     [(JStr ''a'', ''3f2a1b4c-5d6e-4f70-8a9b-0c1d2e3f4a5b''),
      (JStr ''b'', ''3f2a1b4c-aaaa-4bbb-8ccc-dddddddddddd'')]
   = \<lparr>contexts = [KStr ''u1'' \<mapsto> [''ctx_3f2a1b4c'' \<mapsto> JStr ''b'']],
      context_stacks = [KStr ''u1'' \<mapsto> [''ctx_3f2a1b4c'', ''ctx_3f2a1b4c'']]\<rparr>"
  by (simp add: request_defs handler_defs)

text \<open>
  C3, as the claim states it, fails. Two pushes of one user whose UUIDs share their
  first eight characters get the same identifier; the second overwrites the entry of
  the first, and list returns the second context twice instead of the two contexts
  that were pushed.
\<close>

theorem colliding_pushes_listed_twice:
  "fst (handle_mcp_request
     (push_all empty_store ''u1''
        [(JStr ''a'', ''3f2a1b4c-5d6e-4f70-8a9b-0c1d2e3f4a5b''),
         (JStr ''b'', ''3f2a1b4c-aaaa-4bbb-8ccc-dddddddddddd'')])
     (user_request ''list_contexts'' ''u1''))
   = Listed [(''ctx_3f2a1b4c'', JStr ''b''), (''ctx_3f2a1b4c'', JStr ''b'')]
   \<and> fst (handle_mcp_request
     (push_all empty_store ''u1''
        [(JStr ''a'', ''3f2a1b4c-5d6e-4f70-8a9b-0c1d2e3f4a5b''),
         (JStr ''b'', ''3f2a1b4c-aaaa-4bbb-8ccc-dddddddddddd'')])
     (user_request ''list_contexts'' ''u1''))
   \<noteq> Listed [(''ctx_3f2a1b4c'', JStr ''a''), (''ctx_3f2a1b4c'', JStr ''b'')]"
  unfolding colliding_pushes_all
  by (simp add: user_request_def handle_mcp_request_def dispatch_def list_contexts_def
      dict_get_def inner_get_def Let_def)

text \<open>
  C3, amended. In every reachable store, a list request naming a non-empty string
  \<^verbatim>\<open>user_id\<close> never fails: it is answered with the identifiers of the user's order, in
  that order, each with the value the entries hold for it, and with the empty sequence
  for a user never seen or whose order is empty. After any sequence of pushes for that
  user, list returns what it returned before followed by the (identifier, context)
  pairs of the pushes that were accepted, in push order, oldest first, provided the
  identifiers generated for those pushes differ from one another and from the
  identifiers already in the user's order.
\<close>

theorem list_contexts_push_order:
  assumes "reachable s" and "user \<noteq> []"
    and "function_name l = ''list_contexts''" and "body l = Decoded (JObj ps)"
    and "dict_get ps ''user_id'' = JStr user"
  shows "fst (handle_mcp_request s l) = Listed (listing s (KStr user))
       \<and> (user_order s (KStr user) = [] \<longrightarrow> fst (handle_mcp_request s l) = Listed [])
       \<and> (distinct (map (\<lambda>(c, u4). new_context_id u4) (accepted cs))
          \<and> set (map (\<lambda>(c, u4). new_context_id u4) (accepted cs))
              \<inter> set (user_order s (KStr user)) = {} \<longrightarrow>
            fst (handle_mcp_request (push_all s user cs) l)
              = Listed (listing s (KStr user)
                  @ map (\<lambda>(c, u4). (new_context_id u4, c)) (accepted cs)))"
proof (intro conjI impI)
  from assms(1) have su: "same_users s" by (rule reachable_same_users)
  show 1: "fst (handle_mcp_request s l) = Listed (listing s (KStr user))"
    by (simp add: handle_list [OF su assms(3-5) assms(2)])
  {
    assume "user_order s (KStr user) = []"
    with 1 show "fst (handle_mcp_request s l) = Listed []" by (simp add: listing_def)
  }
  {
    assume "distinct (map (\<lambda>(c, u4). new_context_id u4) (accepted cs))
          \<and> set (map (\<lambda>(c, u4). new_context_id u4) (accepted cs))
              \<inter> set (user_order s (KStr user)) = {}"
    with listing_push_all [OF su assms(2), of cs]
    have p: "same_users (push_all s user cs)"
      "listing (push_all s user cs) (KStr user)
        = listing s (KStr user) @ map (\<lambda>(c, u4). (new_context_id u4, c)) (accepted cs)"
      by simp_all
    show "fst (handle_mcp_request (push_all s user cs) l)
        = Listed (listing s (KStr user) @ map (\<lambda>(c, u4). (new_context_id u4, c)) (accepted cs))"
      by (simp add: handle_list [OF p(1) assms(3-5) assms(2)] p(2))
  }
qed

theorem list_contexts_push_order_witness:
  "fst (handle_mcp_request empty_store (user_request ''list_contexts'' ''u1'')) = Listed []
   \<and> fst (handle_mcp_request
       (push_all empty_store ''u1''
          [(JObj [(''q'', JStr ''a'')], ''3f2a1b4c-5d6e-4f70-8a9b-0c1d2e3f4a5b''),
           (JObj [], ''11111111-aaaa-4bbb-8ccc-dddddddddddd''),
           (JObj [(''q'', JStr ''b'')], ''9e8d7c6b-aaaa-4bbb-8ccc-dddddddddddd'')])
       (user_request ''list_contexts'' ''u1''))
     = Listed [(''ctx_3f2a1b4c'', JObj [(''q'', JStr ''a'')]),
               (''ctx_9e8d7c6b'', JObj [(''q'', JStr ''b'')])]"
proof -
  let ?l = "user_request ''list_contexts'' ''u1''"
  let ?cs = "[(JObj [(''q'', JStr ''a'')], ''3f2a1b4c-5d6e-4f70-8a9b-0c1d2e3f4a5b''),
           (JObj [], ''11111111-aaaa-4bbb-8ccc-dddddddddddd''),
           (JObj [(''q'', JStr ''b'')], ''9e8d7c6b-aaaa-4bbb-8ccc-dddddddddddd'')]"
  have u: "''u1'' \<noteq> []" by simp
  have l: "function_name ?l = ''list_contexts''" "body ?l = Decoded (JObj [(''user_id'', JStr ''u1'')])"
      "dict_get [(''user_id'', JStr ''u1'')] ''user_id'' = JStr ''u1''"
    by (simp_all add: user_request_def dict_get_def)
  have e: "user_order empty_store (KStr ''u1'') = []" "listing empty_store (KStr ''u1'') = []"
    by (simp_all add: listing_def user_order_def empty_store_def)
  have a: "accepted ?cs = [(JObj [(''q'', JStr ''a'')], ''3f2a1b4c-5d6e-4f70-8a9b-0c1d2e3f4a5b''),
           (JObj [(''q'', JStr ''b'')], ''9e8d7c6b-aaaa-4bbb-8ccc-dddddddddddd'')]"
    by (simp add: accepted_def)
  have d: "distinct (map (\<lambda>(c, u4). new_context_id u4) (accepted ?cs))
      \<and> set (map (\<lambda>(c, u4). new_context_id u4) (accepted ?cs))
          \<inter> set (user_order empty_store (KStr ''u1'')) = {}"
    by (simp add: a e new_context_id_def)
  from list_contexts_push_order [OF reachable.init u l, of ?cs] e d
  have "fst (handle_mcp_request empty_store ?l) = Listed []"
    and "fst (handle_mcp_request (push_all empty_store ''u1'' ?cs) ?l)
      = Listed (map (\<lambda>(c, u4). (new_context_id u4, c)) (accepted ?cs))"
    by simp_all
  then show ?thesis by (simp add: a new_context_id_def)
qed

section \<open>The identifiers handed out\<close>

lemma push_context_pushed_id: "fst (push_context s p u4) = Inr (Pushed i) \<Longrightarrow> i = new_context_id u4"
  unfolding push_context_def
  by (simp add: Let_def split: json.splits option.splits if_splits)

lemma pop_context_not_pushed: "fst (pop_context s p) \<noteq> Inr (Pushed i)"
  unfolding pop_context_def
  by (simp add: Let_def split: json.splits option.splits)

lemma list_contexts_not_pushed: "fst (list_contexts s p) \<noteq> Inr (Pushed i)"
  unfolding list_contexts_def
  by (simp add: Let_def split: json.splits option.splits)

lemma get_context_not_pushed: "fst (get_context s p) \<noteq> Inr (Pushed i)"
  unfolding get_context_def
  by (simp add: Let_def split: json.splits option.splits dict_key.splits)

lemma clear_contexts_not_pushed: "fst (clear_contexts s p) \<noteq> Inr (Pushed i)"
  unfolding clear_contexts_def
  by (simp add: Let_def split: json.splits option.splits)

lemma dispatch_pushed_id:
  assumes "fst (dispatch s fn p u4) = Inr (Pushed i)"
  shows "i = new_context_id u4"
  using assms push_context_pushed_id [of s p u4 i] pop_context_not_pushed [of s p i]
    list_contexts_not_pushed [of s p i] get_context_not_pushed [of s p i]
    clear_contexts_not_pushed [of s p i]
  by (auto simp: dispatch_def split: if_splits)

lemma handle_pushed_id:
  assumes "fst (handle_mcp_request s r) = Pushed i"
  shows "i = new_context_id (uuid4 r)"
proof (cases "body r")
  case EmptyBody
  with assms show ?thesis
    by (auto simp: handle_response split: sum.splits dest: dispatch_pushed_id)
next
  case Malformed
  with assms show ?thesis by (simp add: handle_response)
next
  case (Decoded p)
  with assms show ?thesis
    by (auto simp: handle_response split: sum.splits dest: dispatch_pushed_id)
qed

lemma issued_step:
  "issued u ((r, fst (handle_mcp_request s r)) # tr) = map ((@) ''ctx_'') (draws u [(r, fst (handle_mcp_request s r))]) @ issued u tr"
  by (auto simp: new_context_id_def split: response.splits dest: handle_pushed_id)

lemma draws_step: "draws u (x # tr) = draws u [x] @ draws u tr"
  by (cases x) (simp split: response.splits)

lemma issued_run: "issued u (fst (run s rs)) = map ((@) ''ctx_'') (draws u (fst (run s rs)))"
proof (induction rs arbitrary: s)
  case Nil
  show ?case by simp
next
  case (Cons r rs)
  let ?s' = "snd (handle_mcp_request s r)"
  have "issued u (fst (run s (r # rs)))
      = map ((@) ''ctx_'') (draws u [(r, fst (handle_mcp_request s r))]) @ issued u (fst (run ?s' rs))"
    by (simp only: fst_run_Cons issued_step)
  also have "\<dots> = map ((@) ''ctx_'') (draws u [(r, fst (handle_mcp_request s r))]
      @ draws u (fst (run ?s' rs)))"
    by (simp add: Cons.IH)
  also have "draws u [(r, fst (handle_mcp_request s r))] @ draws u (fst (run ?s' rs))
      = draws u (fst (run s (r # rs)))"
    unfolding fst_run_Cons by (rule draws_step [symmetric])
  finally show ?case .
qed

text \<open>
  C7, as the claim states it, fails. Two pushes of one user whose UUIDs share their
  first eight characters return the same identifier, whether or not a clear comes
  between them.
\<close>

theorem colliding_pushes_reuse_identifier:
  "\<not> distinct (issued (KStr ''u1'') (fst (run empty_store
     [push_request ''u1'' (JStr ''a'') ''3f2a1b4c-5d6e-4f70-8a9b-0c1d2e3f4a5b'',
      push_request ''u1'' (JStr ''b'') ''3f2a1b4c-aaaa-4bbb-8ccc-dddddddddddd''])))
   \<and> issued (KStr ''u1'') (fst (run empty_store
     [push_request ''u1'' (JStr ''a'') ''3f2a1b4c-5d6e-4f70-8a9b-0c1d2e3f4a5b'',
      user_request ''clear_contexts'' ''u1'',
      push_request ''u1'' (JStr ''b'') ''3f2a1b4c-aaaa-4bbb-8ccc-dddddddddddd'']))
     = [''ctx_3f2a1b4c'', ''ctx_3f2a1b4c'']"
  by (simp add: request_defs handler_defs request_user_def)

text \<open>
  C7, amended. The identifier a push returns is \<^verbatim>\<open>ctx_\<close> followed by the first eight
  characters of the UUID drawn for it, and the handler keeps no record of the
  identifiers it has handed out. So over every sequence of operations from any store,
  clears included, the identifiers handed out to a user are pairwise distinct exactly
  when the UUIDs drawn for that user's pushes are pairwise distinct in their first
  eight characters.
\<close>

theorem issued_identifiers:
  "issued u (fst (run s rs)) = map (\<lambda>d. ''ctx_'' @ d) (draws u (fst (run s rs)))
   \<and> distinct (issued u (fst (run s rs))) = distinct (draws u (fst (run s rs)))"
proof
  show 1: "issued u (fst (run s rs)) = map (\<lambda>d. ''ctx_'' @ d) (draws u (fst (run s rs)))"
    by (rule issued_run)
  have "inj_on ((@) ''ctx_'') (set (draws u (fst (run s rs))))" by (simp add: inj_on_def)
  then show "distinct (issued u (fst (run s rs))) = distinct (draws u (fst (run s rs)))"
    by (simp only: 1 distinct_map) simp
qed

theorem issued_identifiers_witness:
  "issued (KStr ''u1'') (fst (run empty_store
     [push_request ''u1'' (JStr ''a'') ''3f2a1b4c-5d6e-4f70-8a9b-0c1d2e3f4a5b'',
      user_request ''clear_contexts'' ''u1'',
      push_request ''u2'' (JStr ''c'') ''3f2a1b4c-5d6e-4f70-8a9b-0c1d2e3f4a5b'',
      push_request ''u1'' (JStr ''b'') ''9e8d7c6b-aaaa-4bbb-8ccc-dddddddddddd'']))
     = [''ctx_3f2a1b4c'', ''ctx_9e8d7c6b'']
   \<and> distinct (issued (KStr ''u1'') (fst (run empty_store
     [push_request ''u1'' (JStr ''a'') ''3f2a1b4c-5d6e-4f70-8a9b-0c1d2e3f4a5b'',
      user_request ''clear_contexts'' ''u1'',
      push_request ''u2'' (JStr ''c'') ''3f2a1b4c-5d6e-4f70-8a9b-0c1d2e3f4a5b'',
      push_request ''u1'' (JStr ''b'') ''9e8d7c6b-aaaa-4bbb-8ccc-dddddddddddd''])))"
proof -
  let ?rs = "[push_request ''u1'' (JStr ''a'') ''3f2a1b4c-5d6e-4f70-8a9b-0c1d2e3f4a5b'',
      user_request ''clear_contexts'' ''u1'',
      push_request ''u2'' (JStr ''c'') ''3f2a1b4c-5d6e-4f70-8a9b-0c1d2e3f4a5b'',
      push_request ''u1'' (JStr ''b'') ''9e8d7c6b-aaaa-4bbb-8ccc-dddddddddddd'']"
  have d: "draws (KStr ''u1'') (fst (run empty_store ?rs)) = [''3f2a1b4c'', ''9e8d7c6b'']"
    by (simp add: request_defs handler_defs request_user_def)
  from issued_identifiers [of "KStr ''u1''" empty_store ?rs] d show ?thesis by simp
qed

section \<open>The headers the relay passes on\<close>

lemma strip_authorization_apply:
  "strip_authorization h k = (if k = ''authorization'' \<or> k = ''Authorization'' then None else h k)"
  by (simp add: strip_authorization_def Let_def)

lemma upper_case_name_not_passed:
  "proxy UPSTREAM_URL endpoint request_body Returns [(''AUTHORIZATION'', v)]
     = Inl (HeaderKeyError ''AUTHORIZATION'')"
  by (simp add: proxy_def dict_headers_def headers_getitem_def lower_def lower_char_def)

lemma dict_from_lower:
  assumes "\<forall>k \<in> set ks. lower k = k \<and> map_of raw k \<noteq> None"
  shows "dict_from raw ks d = Inr (\<lambda>k. if k \<in> set ks then map_of raw k else d k)"
  using assms
proof (induction ks arbitrary: d)
  case Nil
  show ?case by simp
next
  case (Cons k ks)
  from Cons.prems obtain v where v: "map_of raw k = Some v" and l: "lower k = k" by auto
  from Cons.prems have "\<forall>k \<in> set ks. lower k = k \<and> map_of raw k \<noteq> None" by simp
  then have "dict_from raw ks (d(k \<mapsto> v))
      = Inr (\<lambda>k'. if k' \<in> set ks then map_of raw k' else (d(k \<mapsto> v)) k')"
    by (rule Cons.IH)
  moreover have "(\<lambda>k'. if k' \<in> set ks then map_of raw k' else (d(k \<mapsto> v)) k')
      = (\<lambda>k'. if k' \<in> set (k # ks) then map_of raw k' else d k')"
    using v by (auto simp: fun_eq_iff)
  ultimately show ?case using v l by (simp add: headers_getitem_def)
qed

lemma lower_case_names_fst:
  assumes "lower_case_names raw" and "k \<in> fst ` set raw"
  shows "lower k = k"
  using assms by (auto simp: lower_case_names_def list_all_iff)

lemma dict_headers_lower:
  assumes "lower_case_names raw"
  shows "dict_headers raw = Inr (map_of raw)"
proof -
  have "\<forall>k \<in> set (map fst raw). lower k = k \<and> map_of raw k \<noteq> None"
    using assms by (auto simp: lower_case_names_fst map_of_eq_None_iff)
  then have "dict_headers raw = Inr (\<lambda>k. if k \<in> set (map fst raw) then map_of raw k else None)"
    unfolding dict_headers_def by (rule dict_from_lower)
  moreover have "(\<lambda>k. if k \<in> set (map fst raw) then map_of raw k else None) = map_of raw"
  proof
    fix k
    show "(if k \<in> set (map fst raw) then map_of raw k else None) = map_of raw k"
      by (cases "k \<in> fst ` set raw") (simp_all add: map_of_eq_None_iff [symmetric])
  qed
  ultimately show ?thesis by simp
qed

lemma lower_authorization:
  "lower ''authorization'' = ''authorization''" "lower ''Authorization'' = ''authorization''"
  by (simp_all add: lower_def lower_char_def)

lemma stripped_lower_case:
  assumes "lower_case_names raw"
  shows "strip_authorization (map_of raw) n
    = (if lower n = ''authorization'' then None else map_of raw n)"
proof (cases "lower n = ''authorization''")
  case True
  show ?thesis
  proof (cases "n = ''authorization'' \<or> n = ''Authorization''")
    case True
    with \<open>lower n = ''authorization''\<close> show ?thesis by (simp add: strip_authorization_apply)
  next
    case False
    with True have "lower n \<noteq> n" by auto
    with assms have "n \<notin> fst ` set raw" using lower_case_names_fst by blast
    then have "map_of raw n = None" by (simp add: map_of_eq_None_iff)
    with True show ?thesis by (simp add: strip_authorization_apply)
  qed
next
  case False
  then have "n \<noteq> ''authorization''" "n \<noteq> ''Authorization''"
    using lower_authorization by auto
  with False show ?thesis by (simp add: strip_authorization_apply)
qed

text \<open>
  C10. For every list of inbound headers whose names are in lower case, as the server
  hands them over, and in both versions of the relay: the request is passed upstream
  unless decoding the body for the log raises an exception other than
  \<^verbatim>\<open>JSONDecodeError\<close>; and in whatever is passed to the upstream \<^verbatim>\<open>/mcp/{endpoint}\<close>
  the headers hold no authorization header under any casing of the name, every other
  header has the value the request has for it, and the body is the body of the
  request as it came. The second version passes its fixed credential pair as \<^verbatim>\<open>auth\<close>
  next to these headers.
\<close>

theorem authorization_never_forwarded:
  assumes "lower_case_names raw"
  shows "(request_body = [] \<or> loads \<noteq> RaisesOther \<longrightarrow>
            (\<exists>post. proxy UPSTREAM_URL endpoint request_body loads raw = Inr post)
            \<and> (\<exists>post. proxy_with_auth UPSTREAM_URL endpoint request_body loads raw = Inr post))
       \<and> (\<forall>post. proxy UPSTREAM_URL endpoint request_body loads raw = Inr post
              \<or> proxy_with_auth UPSTREAM_URL endpoint request_body loads raw = Inr post \<longrightarrow>
            url post = UPSTREAM_URL @ ''/mcp/'' @ endpoint
            \<and> content post = request_body
            \<and> (\<forall>n. lower n = ''authorization'' \<longrightarrow> headers post n = None)
            \<and> (\<forall>n. lower n \<noteq> ''authorization'' \<longrightarrow> headers post n = map_of raw n))
       \<and> (\<forall>post. proxy UPSTREAM_URL endpoint request_body loads raw = Inr post \<longrightarrow>
            auth post = None)
       \<and> (\<forall>post. proxy_with_auth UPSTREAM_URL endpoint request_body loads raw = Inr post \<longrightarrow>
            auth post = Some (''instabids'', ''secure123password''))"
  using dict_headers_lower [OF assms] stripped_lower_case [OF assms]
  by (auto simp: proxy_def proxy_with_auth_def split: if_splits)

theorem authorization_never_forwarded_witness:
  "\<exists>post. proxy ''https://context7-mcp.fly.dev'' ''pop_context'' ''{}'' Returns
        [(''authorization'', ''Bearer t''), (''content-type'', ''application/json'')] = Inr post
     \<and> url post = ''https://context7-mcp.fly.dev/mcp/pop_context''
     \<and> content post = ''{}''
     \<and> headers post ''authorization'' = None
     \<and> headers post ''content-type'' = Some ''application/json''"
proof -
  let ?raw = "[(''authorization'', ''Bearer t''), (''content-type'', ''application/json'')]"
  have l: "lower_case_names ?raw"
    by (simp add: lower_case_names_def lower_def lower_char_def)
  have a: "lower ''authorization'' = ''authorization''"
    and c: "lower ''content-type'' \<noteq> ''authorization''"
    by (simp_all add: lower_def lower_char_def)
  note t = authorization_never_forwarded [OF l, of "''{}''" Returns
      "''https://context7-mcp.fly.dev''" "''pop_context''"]
  from t obtain post where
    p: "proxy ''https://context7-mcp.fly.dev'' ''pop_context'' ''{}'' Returns ?raw = Inr post"
    by auto
  with t have "url post = ''https://context7-mcp.fly.dev'' @ ''/mcp/'' @ ''pop_context''"
    and "content post = ''{}''"
    and "\<forall>n. lower n = ''authorization'' \<longrightarrow> headers post n = None"
    and "\<forall>n. lower n \<noteq> ''authorization'' \<longrightarrow> headers post n = map_of ?raw n"
    by blast+
  with a c p show ?thesis by auto
qed

end
